theory Spec2Isabelle
  imports Main "HOL-Library.AList"
begin

section \<open>monorm: schema derivation for record types (monorm/model.py)\<close>

text \<open>
  A shallow embedding of \<^verbatim>\<open>monorm/model.py\<close>: the translation of type hints into
  fields, the metaclass \<^verbatim>\<open>ModelType\<close> that collects the fields of a record type and
  applies the overrides of its \<^verbatim>\<open>Meta\<close> block, and the instances of \<^verbatim>\<open>BaseModel\<close>.
  Python exceptions are values of the type \<open>error\<close>; a function that may raise
  returns \<open>error + 'a\<close> with \<open>Inl\<close> for the exception.
\<close>

subsection \<open>Errors and values\<close>

datatype error =
    TypeError
  | ValueError string
  | AttributeError string
  | IndexError
  | RuntimeError
  | ConversionError string
  | ValidationError string

text \<open>Python values as far as the class body and the documents hold them.\<close>

datatype pyval =
    VNone
  | VBool bool
  | VInt int
  | VStr string
  | VCallable string
  | VList "pyval list"
  | VDict "(string \<times> pyval) list"

subsection \<open>Type hints and field kinds\<close>

text \<open>
  The ten keys of \<^verbatim>\<open>hint_field_map\<close>: \<^verbatim>\<open>str, int, float, bool, bytes, dict, list,
  datetime, ObjectId, Any\<close>.
\<close>

datatype prim =
    PStr | PInt | PFloat | PBool | PBytes | PDict | PList | PDatetime | PObjectId | PAny

datatype variance = Invariant | Covariant | Contravariant

text \<open>
  A type hint, by what \<^verbatim>\<open>_hint_to_field\<close> inspects of the object.
  \<^item> \<open>Prim p\<close>: one of the ten builtin types above.
  \<^item> \<open>Class c emb\<close>: any other class \<open>c\<close>; \<open>emb\<close> is
    \<^verbatim>\<open>issubclass(c, EmbeddedModel)\<close>.
  \<^item> \<open>ListAlias args\<close>: an object whose \<^verbatim>\<open>__dict__\<close> has \<^verbatim>\<open>list\<close> (or \<^verbatim>\<open>typing.List\<close>)
    as \<^verbatim>\<open>__origin__\<close>. \<open>args\<close> is its attribute \<^verbatim>\<open>__args__\<close>: \<open>Some\<close> of the tuple, or
    \<open>None\<close> if the object has no such attribute (the bare \<^verbatim>\<open>typing.List\<close> has the tuple
    \<^verbatim>\<open>(T,)\<close> in Python 3.7 and 3.8 and no \<^verbatim>\<open>__args__\<close> from 3.9 on).
  \<^item> \<open>TypeVar n v d\<close>: the type variable named \<open>n\<close> of variance \<open>v\<close>; \<open>d\<close> tells
    whether the object has a \<^verbatim>\<open>__dict__\<close> (it has one in Python 3.7, none from 3.8 on).
  \<^item> \<open>Other s h d\<close>: any other object, printed \<open>s\<close> (never \<^verbatim>\<open>~T\<close>), such as
    \<^verbatim>\<open>Dict[str, int]\<close>, \<^verbatim>\<open>Optional[int]\<close>, \<^verbatim>\<open>int | None\<close> or \<^verbatim>\<open>3\<close>; \<open>h\<close> tells whether it is
    hashable and \<open>d\<close> whether it has a \<^verbatim>\<open>__dict__\<close> (which then has no such
    \<^verbatim>\<open>__origin__\<close>).
\<close>

datatype hint =
    Prim prim
  | Class string bool
  | ListAlias "hint list option"
  | TypeVar string variance bool
  | Other string bool bool

text \<open>
  The field classes. The element of an \<open>ArrayField\<close> is the field that
  \<^verbatim>\<open>_hint_to_field\<close> has just built for the element type; nothing names or changes
  it afterwards, so it is held by its kind.
\<close>

datatype fkind =
    StringField | IntField | FloatField | BooleanField | BytesField | DictField
  | ListField | DateTimeField | ObjectIdField | AnyField
  | EmbeddedField string
  | ArrayField fkind

definition hint_field_map :: "(hint \<times> fkind) list" where
  "hint_field_map =
    [(Prim PStr, StringField),
     (Prim PInt, IntField),
     (Prim PFloat, FloatField),
     (Prim PBool, BooleanField),
     (Prim PBytes, BytesField),
     (Prim PDict, DictField),
     (Prim PList, ListField),
     (Prim PDatetime, DateTimeField),
     (Prim PObjectId, ObjectIdField),
     (Prim PAny, AnyField)]"

text \<open>
  \<^verbatim>\<open>hint_type in hint_field_map\<close> hashes the object, and raises \<^verbatim>\<open>TypeError\<close> for one
  that is not hashable.
\<close>

fun hashable :: "hint \<Rightarrow> bool" where
  "hashable (Other s h d) = h"
| "hashable hint_type = True"

text \<open>\<^verbatim>\<open>isclass(hint_type) and issubclass(hint_type, EmbeddedModel)\<close>\<close>

fun is_embedded_model :: "hint \<Rightarrow> bool" where
  "is_embedded_model (Class c emb) = emb"
| "is_embedded_model h = False"

fun class_name :: "hint \<Rightarrow> string" where
  "class_name (Class c emb) = c"
| "class_name h = []"

text \<open>Whether \<^verbatim>\<open>hint_type.__dict__\<close> exists; without it, the access raises \<^verbatim>\<open>AttributeError\<close>.\<close>

fun has_dict :: "hint \<Rightarrow> bool" where
  "has_dict (TypeVar n v d) = d"
| "has_dict (Other s h d) = d"
| "has_dict hint_type = True"

text \<open>\<^verbatim>\<open>str(arg) == '~T'\<close>: an invariant type variable is printed \<^verbatim>\<open>~\<close> and its name.\<close>

fun prints_as_T :: "hint \<Rightarrow> bool" where
  "prints_as_T (TypeVar n v d) = (v = Invariant \<and> n = ''T'')"
| "prints_as_T arg = False"

text \<open>
  \<^verbatim>\<open>_hint_to_field\<close>, returning the kind of the field it constructs. The tests are
  made in the order of the source: the lookup in the table, the test for an embedded
  model, the access to \<^verbatim>\<open>__dict__\<close> and the test of its \<^verbatim>\<open>__origin__\<close>, then
  \<^verbatim>\<open>__args__[0]\<close> (\<^verbatim>\<open>AttributeError\<close> without \<^verbatim>\<open>__args__\<close>, \<^verbatim>\<open>IndexError\<close> on the empty
  tuple); the last line raises \<^verbatim>\<open>TypeError\<close>.
\<close>

fun hint_to_field :: "hint \<Rightarrow> error + fkind" where
  "hint_to_field hint_type =
     (if \<not> hashable hint_type then Inl TypeError
      else
        (case map_of hint_field_map hint_type of
           Some k \<Rightarrow> Inr k
         | None \<Rightarrow>
             if is_embedded_model hint_type then Inr (EmbeddedField (class_name hint_type))
             else if \<not> has_dict hint_type then Inl (AttributeError ''__dict__'')
             else
               (case hint_type of
                  ListAlias None \<Rightarrow> Inl (AttributeError ''__args__'')
                | ListAlias (Some []) \<Rightarrow> Inl IndexError
                | ListAlias (Some (arg # rest)) \<Rightarrow>
                    if prints_as_T arg then Inr ListField
                    else
                      (case hint_to_field arg of
                         Inl e \<Rightarrow> Inl e
                       | Inr k \<Rightarrow> Inr (ArrayField k))
                | _ \<Rightarrow> Inl TypeError)))"

declare hint_to_field.simps [simp del]

subsection \<open>Fields and class bodies\<close>

text \<open>
  A \<^verbatim>\<open>Field\<close> object with the attributes that \<^verbatim>\<open>model.py\<close> reads and writes. A
  value of a class body is a \<^verbatim>\<open>Field\<close> (\<^verbatim>\<open>isinstance(value, Field)\<close>) or any other
  value. \<open>name f = None\<close> is \<^verbatim>\<open>f.name is None\<close>; \<open>default_value f = None\<close> is a
  field on which no default has been recorded.
\<close>

datatype field =
  Field (kind: fkind) (name: "string option") (required: bool)
        (default_value: "attr option") (converter: "pyval option") (validator: "pyval option")
and attr = AField field | AValue pyval

definition set_name :: "string option \<Rightarrow> field \<Rightarrow> field" where
  "set_name n f = Field (kind f) n (required f) (default_value f) (converter f) (validator f)"

definition set_required :: "bool \<Rightarrow> field \<Rightarrow> field" where
  "set_required r f = Field (kind f) (name f) r (default_value f) (converter f) (validator f)"

definition set_default :: "attr option \<Rightarrow> field \<Rightarrow> field" where
  "set_default d f = Field (kind f) (name f) (required f) d (converter f) (validator f)"

definition set_converter :: "pyval option \<Rightarrow> field \<Rightarrow> field" where
  "set_converter c f = Field (kind f) (name f) (required f) (default_value f) c (validator f)"

definition set_validator :: "pyval option \<Rightarrow> field \<Rightarrow> field" where
  "set_validator v f = Field (kind f) (name f) (required f) (default_value f) (converter f) v"

text \<open>
  Modelled from the spec: the constructor of the field classes (missing: the module
  \<^verbatim>\<open>monorm/fields.py\<close>). Called without arguments, as \<^verbatim>\<open>_hint_to_field\<close> calls
  it, it gives a field with no name, not required, and with no default, converter or
  validator.
\<close>

definition new_field :: "fkind \<Rightarrow> field" where
  "new_field k = Field k None False None None None"

text \<open>The \<^verbatim>\<open>Meta\<close> block of a class body, as \<^verbatim>\<open>_process_meta\<close> reads it.\<close>

record meta =
  aliases :: "(string \<times> string) list"
  required_names :: "string list"
  converters :: "(string \<times> pyval) list"
  validators :: "(string \<times> pyval) list"

text \<open>
  A class under construction. \<open>cls_dict\<close> is \<^verbatim>\<open>cls.__dict__\<close> in insertion order,
  without the four entries that have a component of their own:
  \<^verbatim>\<open>__annotations__\<close>, \<^verbatim>\<open>Meta\<close>, \<^verbatim>\<open>_no_parse_hints\<close> (its presence) and
  \<^verbatim>\<open>_field_order\<close> (empty until \<^verbatim>\<open>__new__\<close> sets it).
\<close>

record pyclass =
  cls_dict :: "(string \<times> attr) list"
  annotations :: "(string \<times> hint) list option"
  Meta :: "meta option"
  no_parse_hints :: bool
  field_order :: "string list"

datatype warning = MixedStyles

subsection \<open>\<^verbatim>\<open>ModelType.__new__\<close>\<close>

text \<open>
  The loop over \<^verbatim>\<open>attrs.items()\<close>: a \<^verbatim>\<open>Field\<close> with no name gets its key as name, and
  the key of every \<^verbatim>\<open>Field\<close> is appended to \<^verbatim>\<open>field_order\<close>.
\<close>

fun collect_fields :: "(string \<times> attr) list \<Rightarrow> (string \<times> attr) list \<times> string list" where
  "collect_fields [] = ([], [])"
| "collect_fields ((key, AField v) # rest) =
     (let (d, order) = collect_fields rest
      in ((key, AField (if name v = None then set_name (Some key) v else v)) # d, key # order))"
| "collect_fields ((key, AValue v) # rest) =
     (let (d, order) = collect_fields rest in ((key, AValue v) # d, order))"

definition ModelType_new :: "pyclass \<Rightarrow> pyclass" where
  "ModelType_new body =
     (if no_parse_hints body then body
      else (let (d, order) = collect_fields (cls_dict body)
            in body\<lparr>cls_dict := d, field_order := order\<rparr>))"

subsection \<open>\<^verbatim>\<open>ModelType._parse_type_hints\<close>\<close>

text \<open>
  \<^verbatim>\<open>cls.__dict__.get(name) is not None\<close>, and \<^verbatim>\<open>getattr(cls, name)\<close> for a name that
  the class body binds: the value bound there.
\<close>

definition has_class_value :: "pyclass \<Rightarrow> string \<Rightarrow> bool" where
  "has_class_value cls n =
     (case map_of (cls_dict cls) n of
        None \<Rightarrow> False
      | Some (AValue VNone) \<Rightarrow> False
      | Some v \<Rightarrow> True)"

definition class_getattr :: "pyclass \<Rightarrow> string \<Rightarrow> attr option" where
  "class_getattr cls n = map_of (cls_dict cls) n"

text \<open>
  The loop over \<^verbatim>\<open>types.items()\<close>, where \<open>types\<close> is the result of
  \<^verbatim>\<open>get_type_hints(cls)\<close> (the hints of the class and of its bases) and \<open>anns\<close> is
  the class's own \<^verbatim>\<open>__annotations__\<close>.
\<close>

fun parse_hints_loop ::
  "(string \<times> hint) list \<Rightarrow> (string \<times> hint) list \<Rightarrow> pyclass \<Rightarrow> error + pyclass" where
  "parse_hints_loop anns [] cls = Inr cls"
| "parse_hints_loop anns ((n, hint) # rest) cls =
     (if n \<notin> set (map fst anns) then parse_hints_loop anns rest cls
      else
        (case hint_to_field hint of
           Inl e \<Rightarrow> Inl e
         | Inr k \<Rightarrow>
             (let fld = set_name (Some n) (new_field k);
                  order = field_order cls @ [n];
                  fld' = (if has_class_value cls n
                          then set_default (class_getattr cls n) fld else fld)
              in parse_hints_loop anns rest
                   (cls\<lparr>cls_dict := AList.update n (AField fld') (cls_dict cls),
                        field_order := order\<rparr>))))"

definition parse_type_hints ::
  "(string \<times> hint) list \<Rightarrow> pyclass \<Rightarrow> warning list \<times> (error + pyclass)" where
  "parse_type_hints types cls =
     (case annotations cls of
        None \<Rightarrow> ([], Inr cls)
      | Some anns \<Rightarrow>
          ((if length (field_order cls) \<noteq> 0 then [MixedStyles] else []),
           parse_hints_loop anns types cls))"

subsection \<open>\<^verbatim>\<open>ModelType._process_meta\<close>\<close>

text \<open>
  \<open>fields_get d n\<close> looks \<open>n\<close> up in the dictionary \<^verbatim>\<open>fields\<close> of the source, the
  entries of \<^verbatim>\<open>cls.__dict__\<close> that are \<^verbatim>\<open>Field\<close> objects; \<open>None\<close> is
  \<^verbatim>\<open>name not in fields\<close>.
\<close>

definition fields_get :: "(string \<times> attr) list \<Rightarrow> string \<Rightarrow> field option" where
  "fields_get d n = (case map_of d n of Some (AField f) \<Rightarrow> Some f | _ \<Rightarrow> None)"

text \<open>
  One of the four loops of \<^verbatim>\<open>_process_meta\<close>: \<^verbatim>\<open>ensure_field_exist\<close> raises
  \<^verbatim>\<open>ValueError\<close> for a name that is not in \<^verbatim>\<open>fields\<close>; otherwise the attribute of the
  field is assigned (\<open>assign\<close>), which is seen through \<^verbatim>\<open>cls.__dict__\<close>.
\<close>

fun override ::
  "('x \<Rightarrow> field \<Rightarrow> field) \<Rightarrow> (string \<times> 'x) list \<Rightarrow> (string \<times> attr) list
     \<Rightarrow> error + (string \<times> attr) list" where
  "override assign [] d = Inr d"
| "override assign ((field_name, x) # rest) d =
     (case fields_get d field_name of
        None \<Rightarrow> Inl (ValueError field_name)
      | Some f \<Rightarrow> override assign rest (AList.update field_name (AField (assign x f)) d))"

text \<open>\<^verbatim>\<open>getattr(meta, 'aliases', [])\<close> and the like: a class without \<^verbatim>\<open>Meta\<close> has none.\<close>

definition meta_of :: "pyclass \<Rightarrow> meta" where
  "meta_of cls =
     (case Meta cls of
        None \<Rightarrow> \<lparr>aliases = [], required_names = [], converters = [], validators = []\<rparr>
      | Some m \<Rightarrow> m)"

definition process_meta :: "pyclass \<Rightarrow> error + pyclass" where
  "process_meta cls =
     (let m = meta_of cls in
      case override (\<lambda>alias. set_name (Some alias)) (aliases m) (cls_dict cls) of
        Inl e \<Rightarrow> Inl e
      | Inr d1 \<Rightarrow>
          (case override (\<lambda>u. set_required True) (map (\<lambda>n. (n, ())) (required_names m)) d1 of
             Inl e \<Rightarrow> Inl e
           | Inr d2 \<Rightarrow>
               (case override (\<lambda>c. set_converter (Some c)) (converters m) d2 of
                  Inl e \<Rightarrow> Inl e
                | Inr d3 \<Rightarrow>
                    (case override (\<lambda>v. set_validator (Some v)) (validators m) d3 of
                       Inl e \<Rightarrow> Inl e
                     | Inr d4 \<Rightarrow> Inr (cls\<lparr>cls_dict := d4\<rparr>)))))"

subsection \<open>\<^verbatim>\<open>ModelType.__init__\<close> and the definition of a class\<close>

definition ModelType_init ::
  "(string \<times> hint) list \<Rightarrow> pyclass \<Rightarrow> warning list \<times> (error + pyclass)" where
  "ModelType_init types cls =
     (if no_parse_hints cls then ([], Inr cls)
      else
        (case parse_type_hints types cls of
           (w, Inl e) \<Rightarrow> (w, Inl e)
         | (w, Inr cls') \<Rightarrow> (w, process_meta cls')))"

text \<open>The metaclass call: \<^verbatim>\<open>__new__\<close>, then \<^verbatim>\<open>__init__\<close> on its result.\<close>

definition define_class ::
  "(string \<times> hint) list \<Rightarrow> pyclass \<Rightarrow> warning list \<times> (error + pyclass)" where
  "define_class types body = ModelType_init types (ModelType_new body)"

subsection \<open>The definition of a class, with the \<^verbatim>\<open>Field\<close> objects in a store\<close>

text \<open>
  The definitions above hold the \<^verbatim>\<open>Field\<close> object of a binding by value. That is exact
  for the order of the fields, their kinds and defaults and the checks of the names in
  \<^verbatim>\<open>Meta\<close>, which depend on the bindings only. The name that an object has in the end
  also depends on which bindings share the object, and an alias may be any object,
  \<^verbatim>\<open>None\<close> included. For the names, the same functions are modelled here with the
  objects in a store: a binding of \<^verbatim>\<open>cls.__dict__\<close> is a reference to a \<^verbatim>\<open>Field\<close> object
  or another value, and an assignment to an attribute of a \<^verbatim>\<open>Field\<close> changes the
  object at its address.
\<close>

datatype binding = Ref nat | Val pyval

record fobj =
  obj_kind :: fkind
  obj_name :: pyval
  obj_required :: bool
  obj_default :: "binding option"
  obj_converter :: pyval
  obj_validator :: pyval

text \<open>
  Modelled from the spec: the constructor of the field classes (missing: the module
  \<^verbatim>\<open>monorm/fields.py\<close>), as \<open>new_field\<close> above; \<^verbatim>\<open>None\<close> is \<open>VNone\<close>.
\<close>

definition new_fobj :: "fkind \<Rightarrow> fobj" where
  "new_fobj k =
     \<lparr>obj_kind = k, obj_name = VNone, obj_required = False, obj_default = None,
      obj_converter = VNone, obj_validator = VNone\<rparr>"

text \<open>The \<^verbatim>\<open>Meta\<close> block; an alias, a converter and a validator may be any object.\<close>

record meta_block =
  alias_items :: "(string \<times> pyval) list"
  required_items :: "string list"
  converter_items :: "(string \<times> pyval) list"
  validator_items :: "(string \<times> pyval) list"

text \<open>
  A class under construction: \<open>bindings\<close> is \<^verbatim>\<open>cls.__dict__\<close> in insertion order
  (without the four entries that have a component of their own, as above), \<open>objects\<close>
  gives the \<^verbatim>\<open>Field\<close> object at an address, and the addresses below \<open>next_ref\<close> are
  in use.
\<close>

record class_state =
  bindings :: "(string \<times> binding) list"
  objects :: "nat \<Rightarrow> fobj"
  next_ref :: nat
  st_annotations :: "(string \<times> hint) list option"
  st_Meta :: "meta_block option"
  st_no_parse_hints :: bool
  st_field_order :: "string list"

text \<open>
  The loop of \<^verbatim>\<open>ModelType.__new__\<close>: a \<^verbatim>\<open>Field\<close> object whose name is \<^verbatim>\<open>None\<close> when its
  binding is visited gets the key as name.
\<close>

fun collect_objects ::
  "(string \<times> binding) list \<Rightarrow> (nat \<Rightarrow> fobj) \<Rightarrow> (nat \<Rightarrow> fobj) \<times> string list" where
  "collect_objects [] objs = (objs, [])"
| "collect_objects ((key, Ref r) # rest) objs =
     (let objs' = (if obj_name (objs r) = VNone
                   then objs(r := (objs r)\<lparr>obj_name := VStr key\<rparr>) else objs);
          (objs'', order) = collect_objects rest objs'
      in (objs'', key # order))"
| "collect_objects ((key, Val v) # rest) objs = collect_objects rest objs"

definition ModelType_new_st :: "class_state \<Rightarrow> class_state" where
  "ModelType_new_st body =
     (if st_no_parse_hints body then body
      else (let (objs, order) = collect_objects (bindings body) (objects body)
            in body\<lparr>objects := objs, st_field_order := order\<rparr>))"

text \<open>
  The loop of \<^verbatim>\<open>_parse_type_hints\<close>: the field built for a hint is a new object, at the
  next address; \<^verbatim>\<open>setattr(cls, name, field)\<close> binds the name to it.
\<close>

fun parse_hints_loop_st ::
  "(string \<times> hint) list \<Rightarrow> (string \<times> hint) list \<Rightarrow> class_state \<Rightarrow> error + class_state" where
  "parse_hints_loop_st anns [] cls = Inr cls"
| "parse_hints_loop_st anns ((n, hint) # rest) cls =
     (if n \<notin> set (map fst anns) then parse_hints_loop_st anns rest cls
      else
        (case hint_to_field hint of
           Inl e \<Rightarrow> Inl e
         | Inr k \<Rightarrow>
             (let r = next_ref cls;
                  fld = (new_fobj k)\<lparr>obj_name := VStr n\<rparr>;
                  fld' = (case map_of (bindings cls) n of
                            None \<Rightarrow> fld
                          | Some (Val VNone) \<Rightarrow> fld
                          | Some b \<Rightarrow> fld\<lparr>obj_default := Some b\<rparr>)
              in parse_hints_loop_st anns rest
                   (cls\<lparr>bindings := AList.update n (Ref r) (bindings cls),
                        objects := (objects cls)(r := fld'),
                        next_ref := Suc r,
                        st_field_order := st_field_order cls @ [n]\<rparr>))))"

definition parse_type_hints_st ::
  "(string \<times> hint) list \<Rightarrow> class_state \<Rightarrow> warning list \<times> (error + class_state)" where
  "parse_type_hints_st types cls =
     (case st_annotations cls of
        None \<Rightarrow> ([], Inr cls)
      | Some anns \<Rightarrow>
          ((if length (st_field_order cls) \<noteq> 0 then [MixedStyles] else []),
           parse_hints_loop_st anns types cls))"

text \<open>
  One of the four loops of \<^verbatim>\<open>_process_meta\<close>: \<^verbatim>\<open>fields\<close> holds the bindings that refer
  to \<^verbatim>\<open>Field\<close> objects, and the assignment changes the object that the name refers to.
\<close>

fun override_st ::
  "('x \<Rightarrow> fobj \<Rightarrow> fobj) \<Rightarrow> (string \<times> 'x) list \<Rightarrow> (string \<times> binding) list
     \<Rightarrow> (nat \<Rightarrow> fobj) \<Rightarrow> error + (nat \<Rightarrow> fobj)" where
  "override_st assign [] d objs = Inr objs"
| "override_st assign ((field_name, x) # rest) d objs =
     (case map_of d field_name of
        Some (Ref r) \<Rightarrow> override_st assign rest d (objs(r := assign x (objs r)))
      | _ \<Rightarrow> Inl (ValueError field_name))"

definition meta_st :: "class_state \<Rightarrow> meta_block" where
  "meta_st cls =
     (case st_Meta cls of
        None \<Rightarrow> \<lparr>alias_items = [], required_items = [], converter_items = [],
                  validator_items = []\<rparr>
      | Some m \<Rightarrow> m)"

definition process_meta_st :: "class_state \<Rightarrow> error + class_state" where
  "process_meta_st cls =
     (let m = meta_st cls; d = bindings cls in
      case override_st (\<lambda>alias f. f\<lparr>obj_name := alias\<rparr>) (alias_items m) d (objects cls) of
        Inl e \<Rightarrow> Inl e
      | Inr o1 \<Rightarrow>
          (case override_st (\<lambda>u f. f\<lparr>obj_required := True\<rparr>)
                  (map (\<lambda>n. (n, ())) (required_items m)) d o1 of
             Inl e \<Rightarrow> Inl e
           | Inr o2 \<Rightarrow>
               (case override_st (\<lambda>c f. f\<lparr>obj_converter := c\<rparr>) (converter_items m) d o2 of
                  Inl e \<Rightarrow> Inl e
                | Inr o3 \<Rightarrow>
                    (case override_st (\<lambda>v f. f\<lparr>obj_validator := v\<rparr>)
                            (validator_items m) d o3 of
                       Inl e \<Rightarrow> Inl e
                     | Inr o4 \<Rightarrow> Inr (cls\<lparr>objects := o4\<rparr>)))))"

definition ModelType_init_st ::
  "(string \<times> hint) list \<Rightarrow> class_state \<Rightarrow> warning list \<times> (error + class_state)" where
  "ModelType_init_st types cls =
     (if st_no_parse_hints cls then ([], Inr cls)
      else
        (case parse_type_hints_st types cls of
           (w, Inl e) \<Rightarrow> (w, Inl e)
         | (w, Inr cls') \<Rightarrow> (w, process_meta_st cls')))"

definition define_class_st ::
  "(string \<times> hint) list \<Rightarrow> class_state \<Rightarrow> warning list \<times> (error + class_state)" where
  "define_class_st types body = ModelType_init_st types (ModelType_new_st body)"

subsection \<open>\<^verbatim>\<open>BaseModel\<close>: cleaning, construction, iteration\<close>

type_synonym document = "(string \<times> pyval) list"

text \<open>
  The root field \<^verbatim>\<open>EmbeddedField().init_root(cls)\<close> of a record type, by its two
  methods, which are parameters here (they belong to \<^verbatim>\<open>monorm/fields.py\<close>):
  \<open>convert\<close> returns the converted mapping or raises, \<open>validate\<close> returns nothing
  (\<open>None\<close>) or raises.
\<close>

record root_field =
  convert :: "document \<Rightarrow> error + document"
  validate :: "document \<Rightarrow> error option"

text \<open>The calls made on the root field, in the order they are made.\<close>

datatype call = Convert document | Validate document

text \<open>\<^verbatim>\<open>BaseModel.clean\<close>: the calls it makes, and the mapping it returns or the error.\<close>

definition clean ::
  "root_field \<Rightarrow> document \<Rightarrow> bool \<Rightarrow> bool \<Rightarrow> call list \<times> (error + document)" where
  "clean root d bypass_conversion bypass_validation =
     (let (calls, converted) =
            (if \<not> bypass_conversion then ([Convert d], convert root d) else ([], Inr d))
      in case converted of
           Inl e \<Rightarrow> (calls, Inl e)
         | Inr d' \<Rightarrow>
             if \<not> bypass_validation then
               (case validate root d' of
                  Some e \<Rightarrow> (calls @ [Validate d'], Inl e)
                | None \<Rightarrow> (calls @ [Validate d'], Inr d'))
             else (calls, Inr d'))"

text \<open>An instance holds its mapping, \<^verbatim>\<open>self._data\<close>.\<close>

record pyinstance =
  data :: document

text \<open>\<^verbatim>\<open>BaseModel.__init__\<close>, with the keyword arguments \<open>kw\<close>.\<close>

definition BaseModel_init ::
  "root_field \<Rightarrow> bool \<Rightarrow> bool \<Rightarrow> document \<Rightarrow> call list \<times> (error + pyinstance)" where
  "BaseModel_init root bypass_conversion bypass_validation kw =
     (case clean root kw bypass_conversion bypass_validation of
        (calls, Inl e) \<Rightarrow> (calls, Inl e)
      | (calls, Inr d) \<Rightarrow> (calls, Inr \<lparr>data = d\<rparr>))"

definition to_dict :: "pyinstance \<Rightarrow> document" where
  "to_dict self = data self"

text \<open>
  \<^verbatim>\<open>BaseModel.from_data_unchanged\<close>: the constructor is called with both switches set
  and no keyword argument, then \<^verbatim>\<open>_data\<close> is assigned.
\<close>

definition from_data_unchanged :: "root_field \<Rightarrow> document \<Rightarrow> call list \<times> (error + pyinstance)" where
  "from_data_unchanged root d =
     (case BaseModel_init root True True [] of
        (calls, Inl e) \<Rightarrow> (calls, Inl e)
      | (calls, Inr obj) \<Rightarrow> (calls, Inr (obj\<lparr>data := d\<rparr>)))"

text \<open>
  \<^verbatim>\<open>BaseModel._iter_model\<close>. \<open>getattr\<close> is \<^verbatim>\<open>getattr(self, key)\<close>, the attribute lookup
  on the instance, a parameter here (the descriptors belong to \<^verbatim>\<open>monorm/fields.py\<close>).
  The generator yields a value per key of \<^verbatim>\<open>self._data\<close> and ends at the first
  lookup that raises: the result is the values yielded and the error that ended the
  iteration, if any.
\<close>

fun yield_attrs :: "(string \<Rightarrow> error + 'v) \<Rightarrow> string list \<Rightarrow> 'v list \<times> error option" where
  "yield_attrs getattr [] = ([], None)"
| "yield_attrs getattr (key # keys) =
     (case getattr key of
        Inl e \<Rightarrow> ([], Some e)
      | Inr v \<Rightarrow> (let (vs, r) = yield_attrs getattr keys in (v # vs, r)))"

definition iter_model ::
  "(pyinstance \<Rightarrow> string \<Rightarrow> error + 'v) \<Rightarrow> pyinstance \<Rightarrow> 'v list \<times> error option" where
  "iter_model getattr self = yield_attrs (getattr self) (map fst (data self))"

subsection \<open>Persistence of instances\<close>

text \<open>
  Modelled from the spec: the provenance of a record instance. The persistence layer
  (\<^verbatim>\<open>monorm/mongo.py\<close>, with \<^verbatim>\<open>save\<close> and the queries) is what is missing; an
  instance of \<^verbatim>\<open>model.py\<close> holds \<^verbatim>\<open>_data\<close> only. An instance is constructed, or
  materialized from a query.
\<close>

datatype provenance = Constructed | FromQuery

text \<open>
  Modelled from the spec: an instance of a persistent record type, which has the
  provenance as its only state besides \<^verbatim>\<open>_data\<close> (the class \<^verbatim>\<open>Model\<close> is missing).
\<close>

record model_instance = pyinstance +
  provenance :: provenance

text \<open>
  Modelled from the spec: the unchanged-materialization factory as the persistence
  layer uses it for a query result (missing: the query methods of \<^verbatim>\<open>Model\<close>). The
  instance is the one of \<open>from_data_unchanged\<close>, marked as materialized from a
  query; \<open>from_data_unchanged\<close> of \<^verbatim>\<open>model.py\<close> itself sets no mark.
\<close>

definition materialize :: "root_field \<Rightarrow> document \<Rightarrow> error + model_instance" where
  "materialize root d =
     (case snd (from_data_unchanged root d) of
        Inl e \<Rightarrow> Inl e
      | Inr obj \<Rightarrow> Inr \<lparr>data = data obj, provenance = FromQuery\<rparr>)"

text \<open>
  Modelled from the spec: the assignment of an attribute of an instance (missing: the
  descriptors of \<^verbatim>\<open>monorm/fields.py\<close>), which changes \<^verbatim>\<open>_data\<close> and nothing else.
\<close>

definition set_attribute :: "string \<Rightarrow> pyval \<Rightarrow> model_instance \<Rightarrow> model_instance" where
  "set_attribute key v self = self\<lparr>data := AList.update key v (data self)\<rparr>"

text \<open>
  Modelled from the spec: the persistence hook \<^verbatim>\<open>save\<close> (missing: \<^verbatim>\<open>Model.save\<close>). It
  fails with \<^verbatim>\<open>RuntimeError\<close> for an instance materialized from a query and writes
  the document otherwise; the result is the document written.
\<close>

definition save :: "model_instance \<Rightarrow> error + document" where
  "save self = (if provenance self = FromQuery then Inl RuntimeError else Inr (data self))"

subsection \<open>Index reconciliation\<close>

text \<open>
  Modelled from the spec: the index reconciler (missing: \<^verbatim>\<open>monorm/mongo.py\<close>, which
  builds the indexes of a record type). An index key is the ordered list of its
  fields with their directions.
\<close>

type_synonym index_key = "(string \<times> int) list"

text \<open>Modelled from the spec: the options of an index; the TTL is \<open>expire_after_seconds\<close>.\<close>

record index_options =
  sparse :: bool
  unique :: bool
  expire_after_seconds :: "nat option"

text \<open>
  Modelled from the spec: a declared index in canonical form, the triple of its name,
  key and options; and the metadata of the existing indexes, from name to key and
  options, without the index of the primary key.
\<close>

type_synonym index_spec = "string \<times> index_key \<times> index_options"

type_synonym index_info = "(string \<times> index_key \<times> index_options) list"

text \<open>Modelled from the spec: the calls \<^verbatim>\<open>drop_index\<close> and \<^verbatim>\<open>create_index\<close> on the collection.\<close>

datatype index_op = DropIndex string | CreateIndex string index_key index_options

text \<open>
  Modelled from the spec: step 3 of the reconciler, "for each existing index not
  present (by name) in the declared set: drop it".
\<close>

definition drop_undeclared :: "index_spec list \<Rightarrow> index_info \<Rightarrow> index_op list" where
  "drop_undeclared declared existing =
     map DropIndex (filter (\<lambda>n. n \<notin> set (map fst declared)) (map fst existing))"

text \<open>
  Modelled from the spec: step 4 of the reconciler for one declared index. Absent from
  the existing metadata, it is created with its options; present with another TTL, it
  is dropped and created again; present with the same TTL, it is left as it is.
\<close>

fun ensure_index :: "index_info \<Rightarrow> index_spec \<Rightarrow> index_op list" where
  "ensure_index existing (n, key, opts) =
     (case map_of existing n of
        None \<Rightarrow> [CreateIndex n key opts]
      | Some (key', opts') \<Rightarrow>
          if expire_after_seconds opts' \<noteq> expire_after_seconds opts
          then [DropIndex n, CreateIndex n key opts]
          else [])"

text \<open>
  Modelled from the spec: the reconciler, the calls of step 3 followed by those of
  step 4 for the declared indexes in their order.
\<close>

definition reconcile :: "index_spec list \<Rightarrow> index_info \<Rightarrow> index_op list" where
  "reconcile declared existing =
     drop_undeclared declared existing @ concat (map (ensure_index existing) declared)"

text \<open>The name of the index that a call is about.\<close>

fun op_name :: "index_op \<Rightarrow> string" where
  "op_name (DropIndex n) = n"
| "op_name (CreateIndex n key opts) = n"

subsection \<open>Vocabulary of the statements\<close>

text \<open>
  The annotations for which \<^verbatim>\<open>_hint_to_field\<close> builds a field, as the theorems show:
  the ten primitive kinds, a class that is an embedded model, and a generic sequence
  whose first argument is the type variable printed \<^verbatim>\<open>~T\<close> or is such an annotation in
  turn.
\<close>

fun mappable :: "hint \<Rightarrow> bool" where
  "mappable (Prim p) = True"
| "mappable (Class c emb) = emb"
| "mappable (ListAlias None) = False"
| "mappable (ListAlias (Some [])) = False"
| "mappable (ListAlias (Some (a # rest))) = (prints_as_T a \<or> mappable a)"
| "mappable (TypeVar n v d) = False"
| "mappable (Other s h d) = False"

text \<open>
  The names of \<open>types\<close> that the class annotates itself, in the order of \<open>types\<close>:
  the names for which the loop of \<^verbatim>\<open>_parse_type_hints\<close> does not \<^verbatim>\<open>continue\<close>.
\<close>

definition own_names :: "(string \<times> hint) list \<Rightarrow> (string \<times> hint) list \<Rightarrow> string list" where
  "own_names anns types = filter (\<lambda>n. n \<in> set (map fst anns)) (map fst types)"

text \<open>
  The class after one pass of the body of that loop, for the name \<open>n\<close> whose hint gave
  a field of kind \<open>k\<close>.
\<close>

definition derive :: "pyclass \<Rightarrow> string \<Rightarrow> fkind \<Rightarrow> pyclass" where
  "derive cls n k =
     cls\<lparr>cls_dict :=
           AList.update n
             (AField (if has_class_value cls n
                      then set_default (class_getattr cls n) (set_name (Some n) (new_field k))
                      else set_name (Some n) (new_field k)))
             (cls_dict cls),
         field_order := field_order cls @ [n]\<rparr>"

text \<open>The change \<open>g\<close> made to an entry of \<^verbatim>\<open>cls.__dict__\<close> if it is a \<^verbatim>\<open>Field\<close>.\<close>

definition retouch :: "(field \<Rightarrow> field) \<Rightarrow> attr \<Rightarrow> attr" where
  "retouch g a = (case a of AField f \<Rightarrow> AField (g f) | AValue v \<Rightarrow> AValue v)"

text \<open>
  The field bound to \<open>k\<close> after the assignments that one loop of \<^verbatim>\<open>_process_meta\<close>
  makes for the entries of \<open>xs\<close> that name \<open>k\<close>, in their order.
\<close>

definition overridden :: "('x \<Rightarrow> field \<Rightarrow> field) \<Rightarrow> (string \<times> 'x) list \<Rightarrow> string \<Rightarrow> field \<Rightarrow> field" where
  "overridden assign xs k = fold (\<lambda>(n, x) f. if n = k then assign x f else f) xs"

text \<open>The names that the four loops of \<^verbatim>\<open>_process_meta\<close> check, in the order they do.\<close>

definition meta_names :: "meta \<Rightarrow> string list" where
  "meta_names m =
     map fst (aliases m) @ required_names m @ map fst (converters m) @ map fst (validators m)"

text \<open>The field bound to \<open>k\<close> after the four loops.\<close>

definition finalized :: "meta \<Rightarrow> string \<Rightarrow> field \<Rightarrow> field" where
  "finalized m k f =
     overridden (\<lambda>v. set_validator (Some v)) (validators m) k
       (overridden (\<lambda>c. set_converter (Some c)) (converters m) k
          (overridden (\<lambda>u. set_required True) (map (\<lambda>n. (n, ())) (required_names m)) k
             (overridden (\<lambda>alias. set_name (Some alias)) (aliases m) k f)))"

text \<open>A class with one explicit field, aliased and required by its \<^verbatim>\<open>Meta\<close>.\<close>

definition example_post :: pyclass where
  "example_post =
     \<lparr>cls_dict = [(''title'', AField (Field StringField (Some ''title'') False None None None))],
      annotations = None,
      Meta = Some \<lparr>aliases = [(''title'', ''t'')], required_names = [''title''],
                   converters = [], validators = []\<rparr>,
      no_parse_hints = False, field_order = [''title'']\<rparr>"

text \<open>\<^verbatim>\<open>isinstance(value, Field)\<close>\<close>

fun is_field :: "attr \<Rightarrow> bool" where
  "is_field (AField f) = True"
| "is_field (AValue v) = False"

text \<open>The keys of a class body that are bound to \<^verbatim>\<open>Field\<close> objects, in the order of the body.\<close>

definition explicit_names :: "(string \<times> attr) list \<Rightarrow> string list" where
  "explicit_names d = map fst (filter (\<lambda>(k, a). is_field a) d)"

text \<open>What \<^verbatim>\<open>__new__\<close> does to the \<^verbatim>\<open>Field\<close> bound to \<open>key\<close>.\<close>

definition named_after :: "string \<Rightarrow> field \<Rightarrow> field" where
  "named_after key v = (if name v = None then set_name (Some key) v else v)"

text \<open>The names for which \<^verbatim>\<open>_parse_type_hints\<close> builds a field.\<close>

definition own_annotated :: "pyclass \<Rightarrow> (string \<times> hint) list \<Rightarrow> string list" where
  "own_annotated body types =
     (case annotations body of None \<Rightarrow> [] | Some anns \<Rightarrow> own_names anns types)"

text \<open>
  The body of a class that mixes the two styles,
  \<^verbatim>\<open>title = StringField(); visible: bool = True; views: int = None; tags: List[str]\<close>,
  with a \<^verbatim>\<open>Meta\<close> that aliases \<^verbatim>\<open>title\<close> and requires \<^verbatim>\<open>title\<close> and \<^verbatim>\<open>tags\<close>; and its
  type hints, which start with one inherited from \<^verbatim>\<open>BaseModel\<close>.
\<close>

definition post_body :: pyclass where
  "post_body =
     \<lparr>cls_dict = [(''title'', AField (new_field StringField)),
                  (''visible'', AValue (VBool True)),
                  (''views'', AValue VNone)],
      annotations = Some [(''visible'', Prim PBool), (''views'', Prim PInt),
                          (''tags'', ListAlias (Some [Prim PStr]))],
      Meta = Some \<lparr>aliases = [(''title'', ''t'')], required_names = [''title'', ''tags''],
                   converters = [], validators = []\<rparr>,
      no_parse_hints = False, field_order = []\<rparr>"

definition post_types :: "(string \<times> hint) list" where
  "post_types =
     [(''warn_extra_data'', Prim PBool), (''visible'', Prim PBool), (''views'', Prim PInt),
      (''tags'', ListAlias (Some [Prim PStr]))]"

text \<open>
  Iteration as the specification words it, to be compared with \<open>iter_model\<close>: the
  value of each attribute in the order \<open>order\<close> of the schema.
\<close>

definition iter_schema_order ::
  "(pyinstance \<Rightarrow> string \<Rightarrow> error + 'v) \<Rightarrow> string list \<Rightarrow> pyinstance \<Rightarrow> 'v list \<times> error option" where
  "iter_schema_order getattr order self = yield_attrs (getattr self) order"

text \<open>
  An attribute lookup for the examples: every key of the mapping is an attribute, whose
  value is the stored one, and any other name raises \<^verbatim>\<open>AttributeError\<close>.
\<close>

definition stored_getattr :: "pyinstance \<Rightarrow> string \<Rightarrow> error + pyval" where
  "stored_getattr self key =
     (case map_of (data self) key of
        Some v \<Rightarrow> Inr v
      | None \<Rightarrow> Inl (AttributeError key))"

text \<open>
  An instance of a class with the schema order \<^verbatim>\<open>title, content\<close> whose mapping has the
  keys in the other order, as \<^verbatim>\<open>from_data_unchanged({'content': 'c', 'title': 't'})\<close>
  gives it.
\<close>

definition unordered_post :: pyinstance where
  "unordered_post = \<lparr>data = [(''content'', VStr ''c''), (''title'', VStr ''t'')]\<rparr>"

text \<open>
  Declared indexes and the metadata of a collection for the examples: \<^verbatim>\<open>a_1\<close> is not
  declared, \<^verbatim>\<open>b_1\<close> does not exist, \<^verbatim>\<open>expires_at_1\<close> exists with another TTL and
  \<^verbatim>\<open>c_1\<close> exists as declared.
\<close>

definition plain_options :: index_options where
  "plain_options = \<lparr>sparse = False, unique = False, expire_after_seconds = None\<rparr>"

definition declared_indexes :: "index_spec list" where
  "declared_indexes =
     [(''b_1'', [(''b'', 1)], plain_options),
      (''expires_at_1'', [(''expires_at'', 1)], plain_options\<lparr>expire_after_seconds := Some 3600\<rparr>),
      (''c_1'', [(''c'', 1)], plain_options)]"

definition existing_indexes :: index_info where
  "existing_indexes =
     [(''a_1'', [(''a'', 1)], plain_options),
      (''expires_at_1'', [(''expires_at'', 1)], plain_options\<lparr>expire_after_seconds := Some 2400\<rparr>),
      (''c_1'', [(''c'', 1)], plain_options)]"

text \<open>
  Two root fields for the examples: one converts every value of the mapping to the
  string \<^verbatim>\<open>'1'\<close> and accepts every mapping, the other raises on conversion.
\<close>

definition passing_root :: root_field where
  "passing_root =
     \<lparr>convert = (\<lambda>d. Inr (map (\<lambda>(key, v). (key, VStr ''1'')) d)), validate = (\<lambda>d. None)\<rparr>"

definition failing_root :: root_field where
  "failing_root =
     \<lparr>convert = (\<lambda>d. Inl (ConversionError ''title'')), validate = (\<lambda>d. None)\<rparr>"

text \<open>The addresses that the bindings of a class refer to.\<close>

fun refs_of :: "(string \<times> binding) list \<Rightarrow> nat list" where
  "refs_of [] = []"
| "refs_of ((key, Ref r) # rest) = r # refs_of rest"
| "refs_of ((key, Val v) # rest) = refs_of rest"

text \<open>The first key of a class body, in its order, that is bound to the object at \<open>r\<close>.\<close>

fun first_key :: "(string \<times> binding) list \<Rightarrow> nat \<Rightarrow> string option" where
  "first_key [] r = None"
| "first_key ((key, b) # rest) r = (if b = Ref r then Some key else first_key rest r)"

text \<open>
  A class body in which one \<^verbatim>\<open>Field\<close> object is bound to two attributes,
  \<^verbatim>\<open>a = b = StringField(); c: int = 1\<close>; and the body
  \<^verbatim>\<open>title = StringField(); content = StringField()\<close> whose \<^verbatim>\<open>Meta\<close> has the aliases
  \<^verbatim>\<open>{'title': None, 'content': ''}\<close>.
\<close>

definition shared_body :: class_state where
  "shared_body =
     \<lparr>bindings = [(''a'', Ref 0), (''b'', Ref 0), (''c'', Val (VInt 1))],
      objects = (\<lambda>r. new_fobj StringField),
      next_ref = 1,
      st_annotations = Some [(''c'', Prim PInt)],
      st_Meta = None,
      st_no_parse_hints = False,
      st_field_order = []\<rparr>"

definition unnamed_body :: class_state where
  "unnamed_body =
     \<lparr>bindings = [(''title'', Ref 0), (''content'', Ref 1)],
      objects = (\<lambda>r. new_fobj StringField),
      next_ref = 2,
      st_annotations = None,
      st_Meta = Some \<lparr>alias_items = [(''title'', VNone), (''content'', VStr [])],
                      required_items = [], converter_items = [], validator_items = []\<rparr>,
      st_no_parse_hints = False,
      st_field_order = []\<rparr>"

text \<open>
  The object that one pass of the loop of \<^verbatim>\<open>_parse_type_hints\<close> builds for the name
  \<open>n\<close> whose hint gave the kind \<open>k\<close>, and the class after that pass.
\<close>

definition fresh_object :: "class_state \<Rightarrow> string \<Rightarrow> fkind \<Rightarrow> fobj" where
  "fresh_object cls n k =
     (case map_of (bindings cls) n of
        None \<Rightarrow> (new_fobj k)\<lparr>obj_name := VStr n\<rparr>
      | Some (Val VNone) \<Rightarrow> (new_fobj k)\<lparr>obj_name := VStr n\<rparr>
      | Some b \<Rightarrow> (new_fobj k)\<lparr>obj_name := VStr n, obj_default := Some b\<rparr>)"

definition derive_st :: "class_state \<Rightarrow> string \<Rightarrow> fkind \<Rightarrow> class_state" where
  "derive_st cls n k =
     cls\<lparr>bindings := AList.update n (Ref (next_ref cls)) (bindings cls),
         objects := (objects cls)(next_ref cls := fresh_object cls n k),
         next_ref := Suc (next_ref cls),
         st_field_order := st_field_order cls @ [n]\<rparr>"

text \<open>
  What the loop of \<^verbatim>\<open>_parse_type_hints\<close> keeps, for a class whose body had the addresses
  below \<open>n0\<close> in use and referred to the addresses \<open>old\<close>: the objects of the body are
  as \<open>objs0\<close> has them, and a binding refers to an object of the body, or to a
  later object that is named after the binding.
\<close>

definition parse_inv :: "nat \<Rightarrow> nat list \<Rightarrow> (nat \<Rightarrow> fobj) \<Rightarrow> class_state \<Rightarrow> bool" where
  "parse_inv n0 old objs0 cls =
     (n0 \<le> next_ref cls \<and>
      (\<forall>r < n0. objects cls r = objs0 r) \<and>
      (\<forall>k r. map_of (bindings cls) k = Some (Ref r) \<longrightarrow>
         r < next_ref cls \<and> (r < n0 \<longrightarrow> r \<in> set old) \<and>
         (n0 \<le> r \<longrightarrow> obj_name (objects cls r) = VStr k)))"

section \<open>Properties\<close>

subsection \<open>The translation of type hints\<close>

lemma map_of_table_Prim: "\<exists>k. map_of hint_field_map (Prim p) = Some k"
  by (cases p) (simp_all add: hint_field_map_def)

lemma map_of_table_other:
  "map_of hint_field_map (Class c e) = None"
  "map_of hint_field_map (ListAlias a) = None"
  "map_of hint_field_map (TypeVar n v d) = None"
  "map_of hint_field_map (Other s h d) = None"
  by (simp_all add: hint_field_map_def)

lemma hint_to_field_cases:
  "hint_to_field (Class c emb) = (if emb then Inr (EmbeddedField c) else Inl TypeError)"
  "hint_to_field (ListAlias None) = Inl (AttributeError ''__args__'')"
  "hint_to_field (ListAlias (Some [])) = Inl IndexError"
  "hint_to_field (ListAlias (Some (a # rest))) =
     (if prints_as_T a then Inr ListField
      else (case hint_to_field a of Inl e \<Rightarrow> Inl e | Inr k \<Rightarrow> Inr (ArrayField k)))"
  "hint_to_field (TypeVar n v d) = (if d then Inl TypeError else Inl (AttributeError ''__dict__''))"
  "hint_to_field (Other s h d) =
     (if \<not> h then Inl TypeError
      else if d then Inl TypeError else Inl (AttributeError ''__dict__''))"
  by (simp_all add: hint_to_field.simps map_of_table_other)

lemma hint_to_field_prims:
  "hint_to_field (Prim PStr) = Inr StringField"
  "hint_to_field (Prim PInt) = Inr IntField"
  "hint_to_field (Prim PFloat) = Inr FloatField"
  "hint_to_field (Prim PBool) = Inr BooleanField"
  "hint_to_field (Prim PBytes) = Inr BytesField"
  "hint_to_field (Prim PDict) = Inr DictField"
  "hint_to_field (Prim PList) = Inr ListField"
  "hint_to_field (Prim PDatetime) = Inr DateTimeField"
  "hint_to_field (Prim PObjectId) = Inr ObjectIdField"
  "hint_to_field (Prim PAny) = Inr AnyField"
  by (simp_all add: hint_to_field.simps hint_field_map_def)

lemma hint_to_field_total:
  "if mappable h then \<exists>k. hint_to_field h = Inr k else \<exists>e. hint_to_field h = Inl e"
proof (induction h rule: mappable.induct)
  case (1 p)
  then show ?case using map_of_table_Prim [of p] by (auto simp: hint_to_field.simps)
qed (auto simp: hint_to_field_cases split: if_splits sum.splits)

lemma hint_to_field_mappable: "mappable h \<Longrightarrow> \<exists>k. hint_to_field h = Inr k"
  using hint_to_field_total [of h] by simp


lemma hint_to_field_errors:
  "hint_to_field h = Inl e \<Longrightarrow>
     e = TypeError \<or> e = AttributeError ''__dict__'' \<or> e = AttributeError ''__args__'' \<or>
     e = IndexError"
proof (induction h arbitrary: e rule: mappable.induct)
  case (1 p)
  then show ?case using map_of_table_Prim [of p] by (auto simp: hint_to_field.simps)
qed (auto simp: hint_to_field_cases split: if_splits sum.splits)

subsection \<open>The loop of \<^verbatim>\<open>_parse_type_hints\<close>\<close>

lemma parse_loop_skip:
  "n \<notin> set (map fst anns) \<Longrightarrow>
     parse_hints_loop anns ((n, h) # rest) cls = parse_hints_loop anns rest cls"
  by simp

lemma parse_loop_raise:
  "n \<in> set (map fst anns) \<Longrightarrow> hint_to_field h = Inl e \<Longrightarrow>
     parse_hints_loop anns ((n, h) # rest) cls = Inl e"
  by simp

lemma parse_loop_derive:
  "n \<in> set (map fst anns) \<Longrightarrow> hint_to_field h = Inr k \<Longrightarrow>
     parse_hints_loop anns ((n, h) # rest) cls = parse_hints_loop anns rest (derive cls n k)"
  by (simp add: derive_def Let_def)

lemmas parse_loop_steps = parse_loop_skip parse_loop_raise parse_loop_derive

declare parse_hints_loop.simps(2) [simp del]

lemma own_names_simps:
  "own_names anns [] = []"
  "own_names anns ((n, h) # rest) =
     (if n \<in> set (map fst anns) then n # own_names anns rest else own_names anns rest)"
  by (simp_all add: own_names_def)

lemma derive_simps:
  "field_order (derive cls n k) = field_order cls @ [n]"
  "no_parse_hints (derive cls n k) = no_parse_hints cls"
  "annotations (derive cls n k) = annotations cls"
  "Meta (derive cls n k) = Meta cls"
  "m \<noteq> n \<Longrightarrow> map_of (cls_dict (derive cls n k)) m = map_of (cls_dict cls) m"
  "m \<noteq> n \<Longrightarrow> has_class_value (derive cls n k) m = has_class_value cls m"
  "m \<noteq> n \<Longrightarrow> class_getattr (derive cls n k) m = class_getattr cls m"
  by (simp_all add: derive_def has_class_value_def class_getattr_def update_conv')

lemma derive_own:
  "map_of (cls_dict (derive cls n k)) n =
     Some (AField (if has_class_value cls n
                   then set_default (class_getattr cls n) (set_name (Some n) (new_field k))
                   else set_name (Some n) (new_field k)))"
  by (simp add: derive_def update_conv')


lemma parse_loop_succeeds:
  "\<forall>(n, h) \<in> set types. n \<in> set (map fst anns) \<longrightarrow> mappable h \<Longrightarrow>
     \<exists>cls'. parse_hints_loop anns types cls = Inr cls'"
proof (induction types arbitrary: cls)
  case Nil
  then show ?case by simp
next
  case (Cons p rest)
  obtain n h where p: "p = (n, h)" by (cases p)
  show ?case
  proof (cases "n \<in> set (map fst anns)")
    case False
    with Cons p show ?thesis by (auto simp: parse_loop_skip)
  next
    case own: True
    with Cons.prems p have "mappable h" by auto
    then obtain k where "hint_to_field h = Inr k"
      using hint_to_field_mappable by blast
    with Cons p own show ?thesis by (auto simp: parse_loop_derive)
  qed
qed

lemma parse_loop_frame:
  "parse_hints_loop anns types cls = Inr cls' \<Longrightarrow>
     field_order cls' = field_order cls @ own_names anns types \<and>
     no_parse_hints cls' = no_parse_hints cls \<and> annotations cls' = annotations cls \<and>
     Meta cls' = Meta cls \<and>
     (\<forall>n. n \<notin> set (own_names anns types) \<longrightarrow>
        map_of (cls_dict cls') n = map_of (cls_dict cls) n)"
proof (induction types arbitrary: cls)
  case Nil
  then show ?case by (simp add: own_names_simps)
next
  case (Cons p rest)
  obtain n h where p: "p = (n, h)" by (cases p)
  show ?case
  proof (cases "n \<in> set (map fst anns)")
    case False
    with Cons p show ?thesis by (simp add: parse_loop_skip own_names_simps)
  next
    case own: True
    show ?thesis
    proof (cases "hint_to_field h")
      case (Inl e')
      with Cons.prems p own show ?thesis by (simp add: parse_loop_raise)
    next
      case (Inr k)
      with Cons.prems p own have "parse_hints_loop anns rest (derive cls n k) = Inr cls'"
        by (simp add: parse_loop_derive)
      from Cons.IH [OF this] show ?thesis
        using p own by (simp add: own_names_simps derive_simps)
    qed
  qed
qed

lemma parse_loop_own:
  "parse_hints_loop anns types cls = Inr cls' \<Longrightarrow> distinct (map fst types) \<Longrightarrow>
   (n, h) \<in> set types \<Longrightarrow> n \<in> set (map fst anns) \<Longrightarrow>
     \<exists>k. hint_to_field h = Inr k \<and>
       map_of (cls_dict cls') n =
         Some (AField (if has_class_value cls n
                       then set_default (class_getattr cls n) (set_name (Some n) (new_field k))
                       else set_name (Some n) (new_field k)))"
proof (induction types arbitrary: cls)
  case Nil
  then show ?case by simp
next
  case (Cons p rest)
  obtain m g where p: "p = (m, g)" by (cases p)
  from Cons.prems(2) p have notin: "m \<notin> set (map fst rest)" and d: "distinct (map fst rest)"
    by simp_all
  show ?case
  proof (cases "m \<in> set (map fst anns)")
    case False
    with Cons.prems p have "parse_hints_loop anns rest cls = Inr cls'" "(n, h) \<in> set rest"
      by (auto simp: parse_loop_skip)
    from Cons.IH [OF this(1) d this(2) Cons.prems(4)] show ?thesis .
  next
    case own: True
    show ?thesis
    proof (cases "hint_to_field g")
      case (Inl e')
      with Cons.prems p own show ?thesis by (simp add: parse_loop_raise)
    next
      case (Inr k)
      with Cons.prems p own have run: "parse_hints_loop anns rest (derive cls m k) = Inr cls'"
        by (simp add: parse_loop_derive)
      show ?thesis
      proof (cases "n = m")
        case True
        with Cons.prems(3) p notin have "h = g" by (auto simp: rev_image_eqI)
        from notin have "m \<notin> set (own_names anns rest)" by (auto simp: own_names_def)
        with parse_loop_frame [OF run] have "map_of (cls_dict cls') m = map_of (cls_dict (derive cls m k)) m"
          by blast
        with Inr True \<open>h = g\<close> show ?thesis by (simp add: derive_own)
      next
        case False
        with Cons.prems(3) p have "(n, h) \<in> set rest" by auto
        have same: "has_class_value (derive cls m k) n = has_class_value cls n"
          "class_getattr (derive cls m k) n = class_getattr cls n"
          using False by (simp_all add: derive_simps)
        from Cons.IH [OF run d \<open>(n, h) \<in> set rest\<close> Cons.prems(4)] show ?thesis
          unfolding same .
      qed
    qed
  qed
qed





subsection \<open>The overrides of \<^verbatim>\<open>_process_meta\<close>\<close>

lemma overridden_simps:
  "overridden assign [] k f = f"
  "overridden assign ((n, x) # xs) k f =
     overridden assign xs k (if n = k then assign x f else f)"
  by (simp_all add: overridden_def)

lemma overridden_other: "n \<noteq> k \<Longrightarrow> overridden assign ((n, x) # xs) k = overridden assign xs k"
  by (simp add: overridden_def fun_eq_iff)

lemma overridden_same:
  "retouch (overridden assign ((k, x) # xs) k) (AField f) =
     retouch (overridden assign xs k) (AField (assign x f))"
  by (simp add: overridden_def retouch_def)

lemma fields_get_update:
  "fields_get (AList.update k (AField g) d) n = (if n = k then Some g else fields_get d n)"
  by (simp add: fields_get_def update_conv')

lemma find_append:
  "find P (xs @ ys) = (case find P xs of Some x \<Rightarrow> Some x | None \<Rightarrow> find P ys)"
  by (induction xs) simp_all

lemma override_raises:
  "find (\<lambda>n. fields_get d n = None) (map fst xs) = Some n \<Longrightarrow>
     override assign xs d = Inl (ValueError n)"
proof (induction xs arbitrary: d)
  case Nil
  then show ?case by simp
next
  case (Cons p xs)
  obtain m x where p: "p = (m, x)" by (cases p)
  show ?case
  proof (cases "fields_get d m")
    case None
    with Cons.prems p show ?thesis by simp
  next
    case (Some f)
    let ?d = "AList.update m (AField (assign x f)) d"
    have "(\<lambda>n. fields_get ?d n = None) = (\<lambda>n. fields_get d n = None)"
      using Some by (auto simp: fields_get_update)
    with Cons.prems p Some have "find (\<lambda>n. fields_get ?d n = None) (map fst xs) = Some n"
      by simp
    from Cons.IH [OF this] p Some show ?thesis by simp
  qed
qed

lemma override_returns:
  "find (\<lambda>n. fields_get d n = None) (map fst xs) = None \<Longrightarrow>
     \<exists>d'. override assign xs d = Inr d' \<and> map fst d' = map fst d \<and>
       (\<forall>k. map_of d' k = map_option (retouch (overridden assign xs k)) (map_of d k))"
proof (induction xs arbitrary: d)
  case Nil
  have "retouch (\<lambda>f. f) a = a" for a
    by (cases a) (simp_all add: retouch_def)
  then have "map_option (retouch (\<lambda>f. f)) v = v" for v
    by (cases v) simp_all
  then show ?case by (simp add: overridden_def id_def)
next
  case (Cons p xs)
  obtain m x where p: "p = (m, x)" by (cases p)
  show ?case
  proof (cases "fields_get d m")
    case None
    with Cons.prems p show ?thesis by simp
  next
    case (Some f)
    let ?d = "AList.update m (AField (assign x f)) d"
    have mf: "map_of d m = Some (AField f)"
      using Some by (auto simp: fields_get_def split: option.splits attr.splits)
    have "(\<lambda>n. fields_get ?d n = None) = (\<lambda>n. fields_get d n = None)"
      using Some by (auto simp: fields_get_update)
    with Cons.prems p Some have "find (\<lambda>n. fields_get ?d n = None) (map fst xs) = None"
      by simp
    from Cons.IH [OF this] obtain d' where d': "override assign xs ?d = Inr d'"
      "map fst d' = map fst ?d"
      "\<And>k. map_of d' k = map_option (retouch (overridden assign xs k)) (map_of ?d k)"
      by blast
    have keys: "map fst ?d = map fst d"
      using mf by (simp add: update_keys map_of_eq_None_iff [symmetric])
    have "map_of d' k = map_option (retouch (overridden assign (p # xs) k)) (map_of d k)" for k
    proof (cases "k = m")
      case True
      then show ?thesis using d'(3) [of k] mf p
        by (simp add: update_conv' overridden_same)
    next
      case False
      then have "overridden assign (p # xs) k = overridden assign xs k"
        using p by (simp add: overridden_other)
      then show ?thesis using d'(3) [of k] False
        by (simp add: update_conv')
    qed
    with d'(1,2) keys p Some show ?thesis by simp
  qed
qed

lemma set_sels [simp]:
  "kind (set_name a f) = kind f" "name (set_name a f) = a" "required (set_name a f) = required f"
  "default_value (set_name a f) = default_value f" "converter (set_name a f) = converter f"
  "validator (set_name a f) = validator f"
  "kind (set_required r f) = kind f" "name (set_required r f) = name f"
  "required (set_required r f) = r"
  "default_value (set_required r f) = default_value f" "converter (set_required r f) = converter f"
  "validator (set_required r f) = validator f"
  "kind (set_default d f) = kind f" "name (set_default d f) = name f"
  "required (set_default d f) = required f"
  "default_value (set_default d f) = d" "converter (set_default d f) = converter f"
  "validator (set_default d f) = validator f"
  "kind (set_converter c f) = kind f" "name (set_converter c f) = name f"
  "required (set_converter c f) = required f"
  "default_value (set_converter c f) = default_value f" "converter (set_converter c f) = c"
  "validator (set_converter c f) = validator f"
  "kind (set_validator v f) = kind f" "name (set_validator v f) = name f"
  "required (set_validator v f) = required f"
  "default_value (set_validator v f) = default_value f" "converter (set_validator v f) = converter f"
  "validator (set_validator v f) = v"
  by (simp_all add: set_name_def set_required_def set_default_def set_converter_def
      set_validator_def)

lemma last_binding:
  "map_of (rev ((n, x) # xs)) k =
     (case map_of (rev xs) k of Some a \<Rightarrow> Some a | None \<Rightarrow> if n = k then Some x else None)"
  by (simp add: map_add_def split: option.splits)

lemma overridden_name:
  "name (overridden (\<lambda>a. set_name (Some a)) xs k f) =
     (case map_of (rev xs) k of Some a \<Rightarrow> Some a | None \<Rightarrow> name f)"
proof (induction xs arbitrary: f)
  case Nil
  then show ?case by (simp add: overridden_simps)
next
  case (Cons p xs)
  obtain n x where p: "p = (n, x)" by (cases p)
  show ?case unfolding p overridden_simps Cons.IH last_binding
    by (simp split: option.splits)
qed

lemma overridden_converter:
  "converter (overridden (\<lambda>c. set_converter (Some c)) xs k f) =
     (case map_of (rev xs) k of Some c \<Rightarrow> Some c | None \<Rightarrow> converter f)"
proof (induction xs arbitrary: f)
  case Nil
  then show ?case by (simp add: overridden_simps)
next
  case (Cons p xs)
  obtain n x where p: "p = (n, x)" by (cases p)
  show ?case unfolding p overridden_simps Cons.IH last_binding
    by (simp split: option.splits)
qed

lemma overridden_validator:
  "validator (overridden (\<lambda>v. set_validator (Some v)) xs k f) =
     (case map_of (rev xs) k of Some v \<Rightarrow> Some v | None \<Rightarrow> validator f)"
proof (induction xs arbitrary: f)
  case Nil
  then show ?case by (simp add: overridden_simps)
next
  case (Cons p xs)
  obtain n x where p: "p = (n, x)" by (cases p)
  show ?case unfolding p overridden_simps Cons.IH last_binding
    by (simp split: option.splits)
qed

lemma overridden_required:
  "required (overridden (\<lambda>u. set_required True) (map (\<lambda>n. (n, ())) ns) k f) =
     (required f \<or> k \<in> set ns)"
proof (induction ns arbitrary: f)
  case Nil
  then show ?case by (simp add: overridden_simps)
next
  case (Cons n ns)
  show ?case unfolding list.map overridden_simps Cons.IH by auto
qed

lemma overridden_frame:
  assumes "\<And>x g. sel (assign x g) = sel g"
  shows "sel (overridden assign xs k f) = sel f"
proof (induction xs arbitrary: f)
  case Nil
  then show ?case by (simp add: overridden_simps)
next
  case (Cons p xs)
  obtain n x where p: "p = (n, x)" by (cases p)
  show ?case unfolding p overridden_simps Cons.IH using assms by simp
qed

lemma fields_get_retouch:
  "map_of d' k = map_option (retouch g) (map_of d k) \<Longrightarrow>
     fields_get d' k = map_option g (fields_get d k)"
  by (auto simp: fields_get_def retouch_def split: option.splits attr.splits)

lemma unknown_retouch:
  assumes "\<And>k. map_of d' k = map_option (retouch (g k)) (map_of d k)"
  shows "(\<lambda>n. fields_get d' n = None) = (\<lambda>n. fields_get d n = None)"
proof
  fix n
  from fields_get_retouch [OF assms [of n]] show "(fields_get d' n = None) = (fields_get d n = None)"
    by simp
qed

lemma retouch_retouch:
  "map_option (retouch g) (map_option (retouch h) v) = map_option (retouch (\<lambda>f. g (h f))) v"
  by (cases v) (auto simp: retouch_def split: attr.splits)

lemma map_fst_required:
  "map fst (map (\<lambda>n. (n, ())) ns) = ns"
  "map (fst \<circ> (\<lambda>n. (n, ()))) ns = ns"
  by (induction ns) simp_all

lemma process_meta_raises:
  assumes "find (\<lambda>n. fields_get (cls_dict cls) n = None) (meta_names (meta_of cls)) = Some n"
  shows "process_meta cls = Inl (ValueError n)"
proof -
  let ?m = "meta_of cls" and ?P = "\<lambda>n. fields_get (cls_dict cls) n = None"
  let ?o1 = "override (\<lambda>alias. set_name (Some alias)) (aliases ?m) (cls_dict cls)"
  show ?thesis
  proof (cases "find ?P (map fst (aliases ?m))")
    case (Some a)
    with assms have "a = n" by (simp add: meta_names_def find_append)
    with override_raises [OF Some] show ?thesis by (simp add: process_meta_def Let_def)
  next
    case n1: None
    from override_returns [OF n1] obtain d1 where d1: "?o1 = Inr d1"
      "\<And>k. map_of d1 k = map_option (retouch (overridden (\<lambda>alias. set_name (Some alias)) (aliases ?m) k)) (map_of (cls_dict cls) k)"
      by blast
    have P1: "(\<lambda>n. fields_get d1 n = None) = ?P" by (rule unknown_retouch [OF d1(2)])
    let ?o2 = "override (\<lambda>u. set_required True) (map (\<lambda>n. (n, ())) (required_names ?m)) d1"
    show ?thesis
    proof (cases "find ?P (required_names ?m)")
      case (Some a)
      with assms n1 have "a = n" by (simp add: meta_names_def find_append)
      with Some P1 have "find (\<lambda>n. fields_get d1 n = None) (map fst (map (\<lambda>n. (n, ())) (required_names ?m))) = Some n"
        by (simp add: map_fst_required)
      from override_raises [OF this] d1(1) show ?thesis by (simp add: process_meta_def Let_def)
    next
      case n2: None
      with P1 have "find (\<lambda>n. fields_get d1 n = None) (map fst (map (\<lambda>n. (n, ())) (required_names ?m))) = None"
        by (simp add: map_fst_required)
      from override_returns [OF this] obtain d2 where d2: "?o2 = Inr d2"
        "\<And>k. map_of d2 k = map_option (retouch (overridden (\<lambda>u. set_required True) (map (\<lambda>n. (n, ())) (required_names ?m)) k)) (map_of d1 k)"
        by blast
      have P2: "(\<lambda>n. fields_get d2 n = None) = ?P"
        using unknown_retouch [OF d2(2)] P1 by simp
      let ?o3 = "override (\<lambda>c. set_converter (Some c)) (converters ?m) d2"
      show ?thesis
      proof (cases "find ?P (map fst (converters ?m))")
        case (Some a)
        with assms n1 n2 have "a = n" by (simp add: meta_names_def find_append)
        with Some P2 have "find (\<lambda>n. fields_get d2 n = None) (map fst (converters ?m)) = Some n"
          by simp
        from override_raises [OF this] d1(1) d2(1) show ?thesis
          by (simp add: process_meta_def Let_def)
      next
        case n3: None
        with P2 have "find (\<lambda>n. fields_get d2 n = None) (map fst (converters ?m)) = None"
          by simp
        from override_returns [OF this] obtain d3 where d3: "?o3 = Inr d3"
          "\<And>k. map_of d3 k = map_option (retouch (overridden (\<lambda>c. set_converter (Some c)) (converters ?m) k)) (map_of d2 k)"
          by blast
        have P3: "(\<lambda>n. fields_get d3 n = None) = ?P"
          using unknown_retouch [OF d3(2)] P2 by simp
        from assms n1 n2 n3 have "find ?P (map fst (validators ?m)) = Some n"
          by (simp add: meta_names_def find_append)
        with P3 have "find (\<lambda>n. fields_get d3 n = None) (map fst (validators ?m)) = Some n"
          by simp
        from override_raises [OF this] d1(1) d2(1) d3(1) show ?thesis
          by (simp add: process_meta_def Let_def)
      qed
    qed
  qed
qed

lemma find_append_None: "find P (xs @ ys) = None \<longleftrightarrow> find P xs = None \<and> find P ys = None"
  by (simp add: find_append split: option.splits)

lemma process_meta_returns:
  assumes "find (\<lambda>n. fields_get (cls_dict cls) n = None) (meta_names (meta_of cls)) = None"
  shows "\<exists>d. process_meta cls = Inr (cls\<lparr>cls_dict := d\<rparr>) \<and> map fst d = map fst (cls_dict cls) \<and>
           (\<forall>k. map_of d k = map_option (retouch (finalized (meta_of cls) k)) (map_of (cls_dict cls) k))"
proof -
  let ?m = "meta_of cls" and ?P = "\<lambda>n. fields_get (cls_dict cls) n = None"
  from assms have n1: "find ?P (map fst (aliases ?m)) = None"
    and n2: "find ?P (required_names ?m) = None"
    and n3: "find ?P (map fst (converters ?m)) = None"
    and n4: "find ?P (map fst (validators ?m)) = None"
    by (simp_all add: meta_names_def find_append_None)
  from override_returns [OF n1] obtain d1 where
    d1: "override (\<lambda>alias. set_name (Some alias)) (aliases ?m) (cls_dict cls) = Inr d1"
      "map fst d1 = map fst (cls_dict cls)"
      "\<And>k. map_of d1 k = map_option (retouch (overridden (\<lambda>alias. set_name (Some alias)) (aliases ?m) k)) (map_of (cls_dict cls) k)"
    by blast
  have P1: "(\<lambda>n. fields_get d1 n = None) = ?P" by (rule unknown_retouch [OF d1(3)])
  from n2 P1 have "find (\<lambda>n. fields_get d1 n = None) (map fst (map (\<lambda>n. (n, ())) (required_names ?m))) = None"
    by (simp add: map_fst_required)
  from override_returns [OF this] obtain d2 where
    d2: "override (\<lambda>u. set_required True) (map (\<lambda>n. (n, ())) (required_names ?m)) d1 = Inr d2"
      "map fst d2 = map fst d1"
      "\<And>k. map_of d2 k = map_option (retouch (overridden (\<lambda>u. set_required True) (map (\<lambda>n. (n, ())) (required_names ?m)) k)) (map_of d1 k)"
    by blast
  have P2: "(\<lambda>n. fields_get d2 n = None) = ?P"
    using unknown_retouch [OF d2(3)] P1 by simp
  from n3 P2 have "find (\<lambda>n. fields_get d2 n = None) (map fst (converters ?m)) = None"
    by simp
  from override_returns [OF this] obtain d3 where
    d3: "override (\<lambda>c. set_converter (Some c)) (converters ?m) d2 = Inr d3"
      "map fst d3 = map fst d2"
      "\<And>k. map_of d3 k = map_option (retouch (overridden (\<lambda>c. set_converter (Some c)) (converters ?m) k)) (map_of d2 k)"
    by blast
  have P3: "(\<lambda>n. fields_get d3 n = None) = ?P"
    using unknown_retouch [OF d3(3)] P2 by simp
  from n4 P3 have "find (\<lambda>n. fields_get d3 n = None) (map fst (validators ?m)) = None"
    by simp
  from override_returns [OF this] obtain d4 where
    d4: "override (\<lambda>v. set_validator (Some v)) (validators ?m) d3 = Inr d4"
      "map fst d4 = map fst d3"
      "\<And>k. map_of d4 k = map_option (retouch (overridden (\<lambda>v. set_validator (Some v)) (validators ?m) k)) (map_of d3 k)"
    by blast
  have run: "process_meta cls = Inr (cls\<lparr>cls_dict := d4\<rparr>)"
    using d1(1) d2(1) d3(1) d4(1) by (simp add: process_meta_def Let_def)
  have keys: "map fst d4 = map fst (cls_dict cls)"
    using d1(2) d2(2) d3(2) d4(2) by simp
  have "map_of d4 k = map_option (retouch (finalized ?m k)) (map_of (cls_dict cls) k)" for k
    unfolding d4(3) d3(3) d2(3) d1(3) retouch_retouch finalized_def ..
  with run keys show ?thesis by blast
qed

lemma finalized_sels:
  "kind (finalized m k f) = kind f"
  "name (finalized m k f) = (case map_of (rev (aliases m)) k of Some a \<Rightarrow> Some a | None \<Rightarrow> name f)"
  "required (finalized m k f) = (required f \<or> k \<in> set (required_names m))"
  "default_value (finalized m k f) = default_value f"
  "converter (finalized m k f) =
     (case map_of (rev (converters m)) k of Some c \<Rightarrow> Some c | None \<Rightarrow> converter f)"
  "validator (finalized m k f) =
     (case map_of (rev (validators m)) k of Some v \<Rightarrow> Some v | None \<Rightarrow> validator f)"
  unfolding finalized_def
  by (simp_all add: overridden_frame [where sel = kind] overridden_frame [where sel = name]
      overridden_frame [where sel = required] overridden_frame [where sel = default_value]
      overridden_frame [where sel = converter] overridden_frame [where sel = validator]
      overridden_name overridden_required overridden_converter overridden_validator
      split: option.splits)

text \<open>
  C3: the overrides of the \<^verbatim>\<open>Meta\<close> block are applied in the order aliases, required
  list, converters, validators. The first name, in that order, that is not a field
  collected on the class makes the definition fail (\<^verbatim>\<open>ValueError\<close>, raised for that
  name while the class is defined). When every name is a field, the definition goes
  through: the keys and the field order are as before, and every field has the last
  alias given for it as name (else its name), is required if the list names it (else
  as before), and has the last converter and validator given for it (else its own).
\<close>

theorem process_meta_overrides:
  "(case find (\<lambda>n. fields_get (cls_dict cls) n = None) (meta_names (meta_of cls)) of
      Some n \<Rightarrow> process_meta cls = Inl (ValueError n)
    | None \<Rightarrow>
        (\<exists>cls'. process_meta cls = Inr cls' \<and>
           map fst (cls_dict cls') = map fst (cls_dict cls) \<and>
           field_order cls' = field_order cls \<and>
           (\<forall>k f. fields_get (cls_dict cls) k = Some f \<longrightarrow>
              (\<exists>f'. fields_get (cls_dict cls') k = Some f' \<and>
                 name f' = (case map_of (rev (aliases (meta_of cls))) k of
                              Some a \<Rightarrow> Some a | None \<Rightarrow> name f) \<and>
                 required f' = (required f \<or> k \<in> set (required_names (meta_of cls))) \<and>
                 converter f' = (case map_of (rev (converters (meta_of cls))) k of
                                   Some c \<Rightarrow> Some c | None \<Rightarrow> converter f) \<and>
                 validator f' = (case map_of (rev (validators (meta_of cls))) k of
                                   Some v \<Rightarrow> Some v | None \<Rightarrow> validator f) \<and>
                 kind f' = kind f \<and> default_value f' = default_value f))))"
proof (cases "find (\<lambda>n. fields_get (cls_dict cls) n = None) (meta_names (meta_of cls))")
  case (Some n)
  from process_meta_raises [OF Some] Some show ?thesis by simp
next
  case None
  from process_meta_returns [OF None] obtain d where
    d: "process_meta cls = Inr (cls\<lparr>cls_dict := d\<rparr>)" "map fst d = map fst (cls_dict cls)"
      "\<And>k. map_of d k = map_option (retouch (finalized (meta_of cls) k)) (map_of (cls_dict cls) k)"
    by blast
  have "fields_get d k = Some (finalized (meta_of cls) k f)"
    if "fields_get (cls_dict cls) k = Some f" for k f
    using fields_get_retouch [OF d(3) [of k]] that by simp
  with d(1,2) None show ?thesis by (simp add: finalized_sels)
qed

theorem process_meta_overrides_witness:
  "\<exists>cls' f'.
     process_meta example_post = Inr cls' \<and>
     fields_get (cls_dict cls') ''title'' = Some f' \<and> name f' = Some ''t'' \<and> required f'"
proof -
  have known: "fields_get (cls_dict example_post) ''title'' =
      Some (Field StringField (Some ''title'') False None None None)"
    by (simp add: example_post_def fields_get_def)
  have m: "meta_of example_post = \<lparr>aliases = [(''title'', ''t'')], required_names = [''title''],
                   converters = [], validators = []\<rparr>"
    by (simp add: example_post_def meta_of_def)
  have "find (\<lambda>n. fields_get (cls_dict example_post) n = None) (meta_names (meta_of example_post)) = None"
    by (simp add: m meta_names_def known)
  with process_meta_overrides [of example_post] obtain cls' where
    c: "process_meta example_post = Inr cls'"
    "\<forall>k f. fields_get (cls_dict example_post) k = Some f \<longrightarrow>
       (\<exists>f'. fields_get (cls_dict cls') k = Some f' \<and>
         name f' = (case map_of (rev (aliases (meta_of example_post))) k of
                              Some a \<Rightarrow> Some a | None \<Rightarrow> name f) \<and>
         required f' = (required f \<or> k \<in> set (required_names (meta_of example_post))) \<and>
         converter f' = (case map_of (rev (converters (meta_of example_post))) k of
                                   Some c \<Rightarrow> Some c | None \<Rightarrow> converter f) \<and>
         validator f' = (case map_of (rev (validators (meta_of example_post))) k of
                                   Some v \<Rightarrow> Some v | None \<Rightarrow> validator f) \<and>
         kind f' = kind f \<and> default_value f' = default_value f)"
    by (simp only: option.case) blast
  from c(2) [rule_format, OF known] obtain f' where
    f': "fields_get (cls_dict cls') ''title'' = Some f'"
    "name f' = (case map_of (rev (aliases (meta_of example_post))) ''title'' of
                  Some a \<Rightarrow> Some a
                | None \<Rightarrow> name (Field StringField (Some ''title'') False None None None))"
    "required f' = (required (Field StringField (Some ''title'') False None None None) \<or>
                    ''title'' \<in> set (required_names (meta_of example_post)))"
    by blast
  from f'(2,3) have "name f' = Some ''t''" "required f'"
    by (simp_all add: m)
  note f'(1) this
  with c(1) show ?thesis by blast
qed

subsection \<open>The definition of a class\<close>

lemma collect_fields_order: "snd (collect_fields d) = explicit_names d"
  by (induction d rule: collect_fields.induct)
     (auto simp: explicit_names_def split: prod.splits)

lemma collect_fields_keys: "map fst (fst (collect_fields d)) = map fst d"
  by (induction d rule: collect_fields.induct) (auto split: prod.splits)

lemma collect_fields_lookup:
  "map_of (fst (collect_fields d)) k = map_option (retouch (named_after k)) (map_of d k)"
  by (induction d rule: collect_fields.induct)
     (auto simp: retouch_def named_after_def split: prod.splits)

lemma ModelType_new_simps:
  "\<not> no_parse_hints body \<Longrightarrow>
     ModelType_new body =
       body\<lparr>cls_dict := fst (collect_fields (cls_dict body)),
            field_order := explicit_names (cls_dict body)\<rparr>"
  using collect_fields_order [of "cls_dict body"]
  by (auto simp: ModelType_new_def split: prod.splits)

lemma fields_get_derive:
  "fields_get (cls_dict (derive cls m k)) n =
     (if n = m
      then Some (if has_class_value cls m
                 then set_default (class_getattr cls m) (set_name (Some m) (new_field k))
                 else set_name (Some m) (new_field k))
      else fields_get (cls_dict cls) n)"
  by (simp add: derive_def fields_get_update)

lemma parse_loop_fields:
  "parse_hints_loop anns types cls = Inr cls' \<Longrightarrow>
     (fields_get (cls_dict cls') n \<noteq> None) =
       (n \<in> set (own_names anns types) \<or> fields_get (cls_dict cls) n \<noteq> None)"
proof (induction types arbitrary: cls)
  case Nil
  then show ?case by (simp add: own_names_simps)
next
  case (Cons p rest)
  obtain m h where p: "p = (m, h)" by (cases p)
  show ?case
  proof (cases "m \<in> set (map fst anns)")
    case False
    with Cons p show ?thesis by (simp add: parse_loop_skip own_names_simps)
  next
    case own: True
    show ?thesis
    proof (cases "hint_to_field h")
      case (Inl e')
      with Cons.prems p own show ?thesis by (simp add: parse_loop_raise)
    next
      case (Inr k)
      with Cons.prems p own have "parse_hints_loop anns rest (derive cls m k) = Inr cls'"
        by (simp add: parse_loop_derive)
      from Cons.IH [OF this] show ?thesis
        using p own by (auto simp: own_names_simps fields_get_derive)
    qed
  qed
qed

lemma process_meta_fields:
  assumes "process_meta cls = Inr cls'"
  shows "fields_get (cls_dict cls') k =
           map_option (finalized (meta_of cls) k) (fields_get (cls_dict cls) k)"
    and "field_order cls' = field_order cls"
    and "map fst (cls_dict cls') = map fst (cls_dict cls)"
proof -
  let ?names = "meta_names (meta_of cls)"
  have "find (\<lambda>n. fields_get (cls_dict cls) n = None) ?names = None"
  proof (cases "find (\<lambda>n. fields_get (cls_dict cls) n = None) ?names")
    case (Some n)
    from process_meta_raises [OF this] assms(1) show ?thesis by simp
  qed simp
  from process_meta_returns [OF this] assms(1) obtain d where
    d: "cls' = cls\<lparr>cls_dict := d\<rparr>" "map fst d = map fst (cls_dict cls)"
    "\<And>k. map_of d k = map_option (retouch (finalized (meta_of cls) k)) (map_of (cls_dict cls) k)"
    by auto
  from fields_get_retouch [OF d(3) [of k]] d(1)
  show "fields_get (cls_dict cls') k =
           map_option (finalized (meta_of cls) k) (fields_get (cls_dict cls) k)"
    by simp
  from d(1,2) show "field_order cls' = field_order cls"
    "map fst (cls_dict cls') = map fst (cls_dict cls)" by simp_all
qed

lemma last_binding_mem: "map_of (rev xs) k = Some a \<Longrightarrow> (k, a) \<in> set xs"
  using map_of_SomeD [of "rev xs" k a] by simp

lemma define_class_unfold:
  "\<not> no_parse_hints body \<Longrightarrow>
     define_class types body =
       (case parse_type_hints types (ModelType_new body) of
          (w, Inl e) \<Rightarrow> (w, Inl e)
        | (w, Inr cls') \<Rightarrow> (w, process_meta cls'))"
  by (simp add: define_class_def ModelType_init_def ModelType_new_simps)

lemma parse_type_hints_frame:
  assumes "parse_type_hints types cls = (w, Inr cls')"
  shows "Meta cls' = Meta cls" "annotations cls' = annotations cls"
    "no_parse_hints cls' = no_parse_hints cls"
    "field_order cls' = field_order cls @ own_annotated cls types"
    "(fields_get (cls_dict cls') n \<noteq> None) =
       (n \<in> set (own_annotated cls types) \<or> fields_get (cls_dict cls) n \<noteq> None)"
proof -
  show "Meta cls' = Meta cls" "annotations cls' = annotations cls"
    "no_parse_hints cls' = no_parse_hints cls"
    "field_order cls' = field_order cls @ own_annotated cls types"
    using assms parse_loop_frame [of _ types cls cls']
    by (auto simp: parse_type_hints_def own_annotated_def split: option.splits)
  show "(fields_get (cls_dict cls') n \<noteq> None) =
       (n \<in> set (own_annotated cls types) \<or> fields_get (cls_dict cls) n \<noteq> None)"
    using assms parse_loop_fields [of _ types cls cls' n]
    by (auto simp: parse_type_hints_def own_annotated_def split: option.splits)
qed

lemma ModelType_new_fields:
  "\<not> no_parse_hints body \<Longrightarrow>
     fields_get (cls_dict (ModelType_new body)) k =
       map_option (named_after k) (fields_get (cls_dict body) k)"
  using fields_get_retouch [OF collect_fields_lookup [of "cls_dict body" k]]
  by (simp add: ModelType_new_simps)

text \<open>
  C10: for an annotated attribute of the class, \<^verbatim>\<open>_parse_type_hints\<close> records a
  default on the derived field only if the class body binds the name to a value that
  is not \<^verbatim>\<open>None\<close>, and the default is that value. If the body binds the name to
  \<^verbatim>\<open>None\<close>, or does not bind it, the derived field has no default.
\<close>

theorem class_level_default:
  assumes "parse_type_hints types cls = (w, Inr cls')" and "annotations cls = Some anns"
    and "distinct (map fst types)" and "(n, h) \<in> set types" and "n \<in> set (map fst anns)"
  shows "\<exists>f. fields_get (cls_dict cls') n = Some f \<and>
           default_value f =
             (case map_of (cls_dict cls) n of
                None \<Rightarrow> None
              | Some (AValue VNone) \<Rightarrow> None
              | Some v \<Rightarrow> Some v)"
proof -
  from assms(1,2) have "parse_hints_loop anns types cls = Inr cls'"
    by (simp add: parse_type_hints_def)
  from parse_loop_own [OF this assms(3,4,5)] obtain k where
    k: "map_of (cls_dict cls') n =
         Some (AField (if has_class_value cls n
                       then set_default (class_getattr cls n) (set_name (Some n) (new_field k))
                       else set_name (Some n) (new_field k)))"
    by blast
  then show ?thesis
    by (auto simp: fields_get_def has_class_value_def class_getattr_def new_field_def
        split: option.splits attr.splits pyval.splits)
qed

lemma find_None_iff': "find P xs = None \<longleftrightarrow> (\<forall>x \<in> set xs. \<not> P x)"
  by (induction xs) auto

lemma define_class_returns:
  assumes "\<not> no_parse_hints body" and "annotations body = Some anns"
    and "distinct (map fst types)"
    and "\<forall>(n, h) \<in> set types. n \<in> set (map fst anns) \<longrightarrow> mappable h"
    and "\<forall>n \<in> set (meta_names (meta_of body)).
           n \<in> set (own_names anns types) \<or> fields_get (cls_dict body) n \<noteq> None"
  shows "\<exists>cls. define_class types body =
                 ((if explicit_names (cls_dict body) \<noteq> [] then [MixedStyles] else []), Inr cls) \<and>
           field_order cls = explicit_names (cls_dict body) @ own_names anns types \<and>
           (\<forall>(n, h) \<in> set types. n \<in> set (map fst anns) \<longrightarrow>
              (\<exists>f. fields_get (cls_dict cls) n = Some f \<and> hint_to_field h = Inr (kind f)))"
proof -
  let ?c1 = "ModelType_new body"
  have c1: "annotations ?c1 = Some anns" "field_order ?c1 = explicit_names (cls_dict body)"
    "Meta ?c1 = Meta body"
    using assms(1,2) by (simp_all add: ModelType_new_simps)
  from parse_loop_succeeds [OF assms(4)] obtain c2 where
    loop: "parse_hints_loop anns types ?c1 = Inr c2" by blast
  let ?w = "if explicit_names (cls_dict body) \<noteq> [] then [MixedStyles] else []"
  from loop c1 have parse: "parse_type_hints types ?c1 = (?w, Inr c2)"
    by (simp add: parse_type_hints_def)
  have own: "own_annotated ?c1 types = own_names anns types"
    using c1(1) by (simp add: own_annotated_def)
  have m: "meta_of c2 = meta_of body"
    using parse_type_hints_frame(1) [OF parse] c1(3) by (simp add: meta_of_def)
  have order2: "field_order c2 = explicit_names (cls_dict body) @ own_names anns types"
    using parse_type_hints_frame(4) [OF parse] c1(2) own by simp
  have known: "fields_get (cls_dict c2) n \<noteq> None" if "n \<in> set (meta_names (meta_of body))" for n
    using assms(5) that parse_type_hints_frame(5) [OF parse, of n] own
      ModelType_new_fields [OF assms(1), of n]
    by auto
  then have "find (\<lambda>n. fields_get (cls_dict c2) n = None) (meta_names (meta_of c2)) = None"
    by (simp add: find_None_iff' m)
  from process_meta_returns [OF this] obtain d where
    d: "process_meta c2 = Inr (c2\<lparr>cls_dict := d\<rparr>)"
    "\<And>k. map_of d k = map_option (retouch (finalized (meta_of c2) k)) (map_of (cls_dict c2) k)"
    by blast
  let ?cls = "c2\<lparr>cls_dict := d\<rparr>"
  have run: "define_class types body = (?w, Inr ?cls)"
    using assms(1) parse d(1) by (simp add: define_class_unfold)
  have "\<exists>f. fields_get (cls_dict ?cls) n = Some f \<and> hint_to_field h = Inr (kind f)"
    if "(n, h) \<in> set types" "n \<in> set (map fst anns)" for n h
  proof -
    from parse_loop_own [OF loop assms(3) that] obtain k g where
      k: "hint_to_field h = Inr k" "map_of (cls_dict c2) n = Some (AField g)" "kind g = k"
      by (auto simp: new_field_def split: if_splits)
    from fields_get_retouch [OF d(2) [of n]] k(2)
    have "fields_get d n = Some (finalized (meta_of c2) n g)"
      by (simp add: fields_get_def)
    with k show ?thesis by (simp add: finalized_sels)
  qed
  with run order2 show ?thesis by auto
qed

text \<open>
  C5: a class body that has explicit \<^verbatim>\<open>Field\<close> objects and annotations (each of a
  type that the correspondence covers, and with a \<^verbatim>\<open>Meta\<close> that names fields of the
  class only) is defined with one warning and no error. A field is built for every
  annotation of the class, and the field order is the explicit fields in the order of
  the body, followed by the annotated names.
\<close>

theorem mixed_declaration:
  assumes "\<not> no_parse_hints body" and "annotations body = Some anns"
    and "explicit_names (cls_dict body) \<noteq> []"
    and "distinct (map fst types)"
    and "\<forall>(n, h) \<in> set types. n \<in> set (map fst anns) \<longrightarrow> mappable h"
    and "\<forall>n \<in> set (meta_names (meta_of body)).
           n \<in> set (own_names anns types) \<or> fields_get (cls_dict body) n \<noteq> None"
  shows "\<exists>cls. define_class types body = ([MixedStyles], Inr cls) \<and>
           field_order cls = explicit_names (cls_dict body) @ own_names anns types \<and>
           (\<forall>(n, h) \<in> set types. n \<in> set (map fst anns) \<longrightarrow>
              (\<exists>f. fields_get (cls_dict cls) n = Some f \<and> hint_to_field h = Inr (kind f)))"
  using define_class_returns [OF assms(1,2,4,5,6)] assms(3) by simp

lemma post_facts:
  "\<not> no_parse_hints post_body"
  "annotations post_body = Some [(''visible'', Prim PBool), (''views'', Prim PInt),
                          (''tags'', ListAlias (Some [Prim PStr]))]"
  "explicit_names (cls_dict post_body) = [''title'']"
  "distinct (map fst post_types)"
  "own_names [(''visible'', Prim PBool), (''views'', Prim PInt),
                          (''tags'', ListAlias (Some [Prim PStr]))] post_types = [''visible'', ''views'', ''tags'']"
  "meta_names (meta_of post_body) = [''title'', ''title'', ''tags'']"
  by (simp_all add: post_body_def post_types_def explicit_names_def own_names_def
      meta_names_def meta_of_def)

lemma post_mappable:
  "\<forall>(n, h) \<in> set post_types.
     n \<in> set (map fst [(''visible'', Prim PBool), (''views'', Prim PInt),
                          (''tags'', ListAlias (Some [Prim PStr]))]) \<longrightarrow> mappable h"
  by (simp add: post_types_def)

theorem mixed_declaration_witness:
  "\<exists>cls f. define_class post_types post_body = ([MixedStyles], Inr cls) \<and>
     field_order cls = [''title'', ''visible'', ''views'', ''tags''] \<and>
     fields_get (cls_dict cls) ''tags'' = Some f \<and> kind f = ArrayField StringField"
proof -
  have known: "\<forall>n \<in> set (meta_names (meta_of post_body)).
           n \<in> set (own_names [(''visible'', Prim PBool), (''views'', Prim PInt),
                          (''tags'', ListAlias (Some [Prim PStr]))] post_types) \<or>
           fields_get (cls_dict post_body) n \<noteq> None"
    unfolding post_facts by (simp add: post_body_def fields_get_def)
  have ex: "explicit_names (cls_dict post_body) \<noteq> []" by (simp add: post_facts)
  from mixed_declaration [OF post_facts(1,2) ex post_facts(4) post_mappable known]
  obtain cls where cls: "define_class post_types post_body = ([MixedStyles], Inr cls)"
    "field_order cls = explicit_names (cls_dict post_body) @
       own_names [(''visible'', Prim PBool), (''views'', Prim PInt),
                          (''tags'', ListAlias (Some [Prim PStr]))] post_types"
    "\<forall>(n, h) \<in> set post_types.
        n \<in> set (map fst [(''visible'', Prim PBool), (''views'', Prim PInt),
                          (''tags'', ListAlias (Some [Prim PStr]))]) \<longrightarrow>
        (\<exists>f. fields_get (cls_dict cls) n = Some f \<and> hint_to_field h = Inr (kind f))"
    by blast
  from cls(3) obtain f where f: "fields_get (cls_dict cls) ''tags'' = Some f"
    "hint_to_field (ListAlias (Some [Prim PStr])) = Inr (kind f)"
    by (auto simp: post_types_def)
  from f(2) have "kind f = ArrayField StringField"
    by (simp add: hint_to_field_cases hint_to_field_prims)
  with cls(1,2) f(1) show ?thesis by (simp add: post_facts)
qed

lemma post_known:
  "\<forall>n \<in> set (meta_names (meta_of post_body)).
     n \<in> set (own_names [(''visible'', Prim PBool), (''views'', Prim PInt),
                          (''tags'', ListAlias (Some [Prim PStr]))] post_types) \<or>
     fields_get (cls_dict post_body) n \<noteq> None"
  unfolding post_facts by (simp add: post_body_def fields_get_def)

lemma post_defined: "\<exists>cls. define_class post_types post_body = ([MixedStyles], Inr cls)"
  using define_class_returns [OF post_facts(1,2,4) post_mappable post_known]
  by (auto simp: post_facts)

lemma define_class_fields:
  assumes "\<not> no_parse_hints body" and "define_class types body = (w, Inr cls)"
  shows "(fields_get (cls_dict cls) n \<noteq> None) =
           (n \<in> set (own_annotated body types) \<or> fields_get (cls_dict body) n \<noteq> None)"
proof -
  let ?c1 = "ModelType_new body"
  from assms obtain c2 where
    c2: "parse_type_hints types ?c1 = (w, Inr c2)" "process_meta c2 = Inr cls"
    by (auto simp: define_class_unfold split: prod.splits sum.splits)
  have "own_annotated ?c1 types = own_annotated body types"
    using assms(1) by (simp add: own_annotated_def ModelType_new_simps)
  with parse_type_hints_frame(5) [OF c2(1), of n] process_meta_fields(1) [OF c2(2), of n]
    ModelType_new_fields [OF assms(1), of n]
  show ?thesis by simp
qed

theorem class_level_default_witness:
  "\<exists>w cls f g. parse_type_hints post_types (ModelType_new post_body) = (w, Inr cls) \<and>
     fields_get (cls_dict cls) ''views'' = Some f \<and> default_value f = None \<and>
     fields_get (cls_dict cls) ''visible'' = Some g \<and>
     default_value g = Some (AValue (VBool True))"
proof -
  let ?anns = "[(''visible'', Prim PBool), (''views'', Prim PInt),
                (''tags'', ListAlias (Some [Prim PStr]))]"
  let ?c1 = "ModelType_new post_body"
  have a: "annotations ?c1 = Some ?anns"
    by (simp add: ModelType_new_simps post_facts)
  from parse_loop_succeeds [OF post_mappable] obtain cls where
    "parse_hints_loop ?anns post_types ?c1 = Inr cls" by blast
  with a obtain w where run: "parse_type_hints post_types ?c1 = (w, Inr cls)"
    by (simp add: parse_type_hints_def)
  have look: "map_of (cls_dict ?c1) ''views'' = Some (AValue VNone)"
    "map_of (cls_dict ?c1) ''visible'' = Some (AValue (VBool True))"
    by (simp_all add: ModelType_new_def post_body_def)
  from class_level_default [OF run a post_facts(4), of "''views''" "Prim PInt"]
  obtain f where f: "fields_get (cls_dict cls) ''views'' = Some f" "default_value f = None"
    by (auto simp: look post_types_def)
  from class_level_default [OF run a post_facts(4), of "''visible''" "Prim PBool"]
  obtain g where g: "fields_get (cls_dict cls) ''visible'' = Some g"
    "default_value g = Some (AValue (VBool True))"
    by (auto simp: look post_types_def)
  from run f g show ?thesis by blast
qed

subsection \<open>The names of the \<^verbatim>\<open>Field\<close> objects\<close>

lemma first_key_refs: "(first_key d r \<noteq> None) = (r \<in> set (refs_of d))"
  by (induction d rule: refs_of.induct) auto

lemma map_of_refs: "map_of d k = Some (Ref r) \<Longrightarrow> r \<in> set (refs_of d)"
  by (induction d rule: refs_of.induct) (auto split: if_splits)

lemma collect_objects_store:
  "fst (collect_objects d objs) r =
     (if obj_name (objs r) = VNone
      then (case first_key d r of
              Some key \<Rightarrow> (objs r)\<lparr>obj_name := VStr key\<rparr>
            | None \<Rightarrow> objs r)
      else objs r)"
proof (induction d objs rule: collect_objects.induct)
  case (1 objs)
  then show ?case by simp
next
  case (2 key r0 rest objs)
  let ?objs' = "if obj_name (objs r0) = VNone
                then objs(r0 := (objs r0)\<lparr>obj_name := VStr key\<rparr>) else objs"
  have step: "fst (collect_objects ((key, Ref r0) # rest) objs) r =
                fst (collect_objects rest ?objs') r"
    by (simp add: Let_def split: prod.splits)
  have IH: "fst (collect_objects rest ?objs') r =
     (if obj_name (?objs' r) = VNone
      then (case first_key rest r of
              Some key \<Rightarrow> (?objs' r)\<lparr>obj_name := VStr key\<rparr>
            | None \<Rightarrow> ?objs' r)
      else ?objs' r)"
    using "2.IH" [OF refl] by simp
  show ?case
  proof (cases "r = r0")
    case True
    then show ?thesis unfolding step IH by (simp split: option.splits)
  next
    case False
    then show ?thesis unfolding step IH by (simp split: option.splits)
  qed
next
  case (3 key v rest objs)
  then show ?case by simp
qed

lemma ModelType_new_st_simps:
  "\<not> st_no_parse_hints body \<Longrightarrow>
     ModelType_new_st body =
       body\<lparr>objects := fst (collect_objects (bindings body) (objects body)),
            st_field_order := snd (collect_objects (bindings body) (objects body))\<rparr>"
  by (simp add: ModelType_new_st_def split: prod.splits)

lemma fresh_object_name: "obj_name (fresh_object cls n k) = VStr n"
  by (simp add: fresh_object_def split: option.splits binding.splits pyval.splits)

lemma parse_st_skip:
  "n \<notin> set (map fst anns) \<Longrightarrow>
     parse_hints_loop_st anns ((n, h) # rest) cls = parse_hints_loop_st anns rest cls"
  by simp

lemma parse_st_raise:
  "n \<in> set (map fst anns) \<Longrightarrow> hint_to_field h = Inl e \<Longrightarrow>
     parse_hints_loop_st anns ((n, h) # rest) cls = Inl e"
  by simp

lemma parse_st_derive:
  "n \<in> set (map fst anns) \<Longrightarrow> hint_to_field h = Inr k \<Longrightarrow>
     parse_hints_loop_st anns ((n, h) # rest) cls =
       parse_hints_loop_st anns rest (derive_st cls n k)"
  by (simp add: derive_st_def fresh_object_def Let_def
      split: option.splits binding.splits pyval.splits)

declare parse_hints_loop_st.simps(2) [simp del]

lemma parse_inv_derive:
  assumes "parse_inv n0 old objs0 cls"
  shows "parse_inv n0 old objs0 (derive_st cls n k)"
  unfolding parse_inv_def
proof (intro conjI allI impI)
  from assms have 1: "n0 \<le> next_ref cls" and 2: "\<forall>r < n0. objects cls r = objs0 r"
    and 3: "\<And>k r. map_of (bindings cls) k = Some (Ref r) \<Longrightarrow>
         r < next_ref cls \<and> (r < n0 \<longrightarrow> r \<in> set old) \<and>
         (n0 \<le> r \<longrightarrow> obj_name (objects cls r) = VStr k)"
    by (auto simp: parse_inv_def)
  show "n0 \<le> next_ref (derive_st cls n k)" using 1 by (simp add: derive_st_def)
  show "objects (derive_st cls n k) r = objs0 r" if "r < n0" for r
    using 1 2 that by (simp add: derive_st_def)
  fix m r assume b: "map_of (bindings (derive_st cls n k)) m = Some (Ref r)"
  show "r < next_ref (derive_st cls n k)"
    using b 3 [of m r] by (auto simp: derive_st_def update_conv' split: if_splits)
  show "r \<in> set old" if "r < n0"
    using b 1 3 [of m r] that by (auto simp: derive_st_def update_conv' split: if_splits)
  show "obj_name (objects (derive_st cls n k) r) = VStr m" if "n0 \<le> r"
    using b 3 [of m r] that
    by (auto simp: derive_st_def update_conv' fresh_object_name split: if_splits)
qed

lemma parse_st_inv:
  "parse_hints_loop_st anns types cls = Inr cls' \<Longrightarrow> parse_inv n0 old objs0 cls \<Longrightarrow>
     parse_inv n0 old objs0 cls'"
proof (induction types arbitrary: cls)
  case Nil
  then show ?case by simp
next
  case (Cons p rest)
  obtain n h where p: "p = (n, h)" by (cases p)
  show ?case
  proof (cases "n \<in> set (map fst anns)")
    case False
    with Cons p show ?thesis by (simp add: parse_st_skip)
  next
    case own: True
    show ?thesis
    proof (cases "hint_to_field h")
      case (Inl e')
      with Cons.prems p own show ?thesis by (simp add: parse_st_raise)
    next
      case (Inr k)
      with Cons.prems p own have
        run: "parse_hints_loop_st anns rest (derive_st cls n k) = Inr cls'"
        by (simp add: parse_st_derive)
      from Cons.IH [OF run parse_inv_derive [OF Cons.prems(2)]] show ?thesis .
    qed
  qed
qed

lemma parse_st_frame:
  "parse_hints_loop_st anns types cls = Inr cls' \<Longrightarrow>
     st_Meta cls' = st_Meta cls \<and> st_no_parse_hints cls' = st_no_parse_hints cls"
proof (induction types arbitrary: cls)
  case Nil
  then show ?case by simp
next
  case (Cons p rest)
  obtain n h where p: "p = (n, h)" by (cases p)
  show ?case
  proof (cases "n \<in> set (map fst anns)")
    case False
    with Cons p show ?thesis by (simp add: parse_st_skip)
  next
    case own: True
    show ?thesis
    proof (cases "hint_to_field h")
      case (Inl e')
      with Cons.prems p own show ?thesis by (simp add: parse_st_raise)
    next
      case (Inr k)
      with Cons.prems p own have
        run: "parse_hints_loop_st anns rest (derive_st cls n k) = Inr cls'"
        by (simp add: parse_st_derive)
      from Cons.IH [OF run] show ?thesis by (simp add: derive_st_def)
    qed
  qed
qed

lemma override_st_names:
  "override_st (\<lambda>alias f. f\<lparr>obj_name := alias\<rparr>) xs d objs = Inr objs' \<Longrightarrow>
     obj_name (objs' r) = obj_name (objs r) \<or>
     (\<exists>k'. map_of d k' = Some (Ref r) \<and> (k', obj_name (objs' r)) \<in> set xs)"
proof (induction xs arbitrary: objs)
  case Nil
  then show ?case by simp
next
  case (Cons p xs)
  obtain k a where p: "p = (k, a)" by (cases p)
  from Cons.prems p obtain r0 where r0: "map_of d k = Some (Ref r0)"
    and run: "override_st (\<lambda>alias f. f\<lparr>obj_name := alias\<rparr>) xs d
                (objs(r0 := (objs r0)\<lparr>obj_name := a\<rparr>)) = Inr objs'"
    by (auto split: option.splits binding.splits)
  from Cons.IH [OF run] show ?case
  proof
    assume same: "obj_name (objs' r) = obj_name ((objs(r0 := (objs r0)\<lparr>obj_name := a\<rparr>)) r)"
    show ?thesis
    proof (cases "r = r0")
      case True
      with same have "obj_name (objs' r) = a" by simp
      with r0 True p show ?thesis by auto
    next
      case False
      with same show ?thesis by simp
    qed
  next
    assume "\<exists>k'. map_of d k' = Some (Ref r) \<and> (k', obj_name (objs' r)) \<in> set xs"
    then show ?thesis by auto
  qed
qed

lemma override_st_keeps:
  assumes "\<And>x f. obj_name (assign x f) = obj_name f"
  shows "override_st assign xs d objs = Inr objs' \<Longrightarrow> obj_name (objs' r) = obj_name (objs r)"
proof (induction xs arbitrary: objs)
  case Nil
  then show ?case by simp
next
  case (Cons p xs)
  obtain k x where p: "p = (k, x)" by (cases p)
  from Cons.prems p obtain r0 where
    run: "override_st assign xs d (objs(r0 := assign x (objs r0))) = Inr objs'"
    by (auto split: option.splits binding.splits)
  from Cons.IH [OF run] assms show ?case by simp
qed

lemma process_meta_st_names:
  assumes "process_meta_st cls = Inr cls'"
  shows "bindings cls' = bindings cls"
    and "obj_name (objects cls' r) = obj_name (objects cls r) \<or>
         (\<exists>k'. map_of (bindings cls) k' = Some (Ref r) \<and>
               (k', obj_name (objects cls' r)) \<in> set (alias_items (meta_st cls)))"
proof -
  let ?m = "meta_st cls" and ?d = "bindings cls"
  from assms obtain o1 o2 o3 o4 where
    o1: "override_st (\<lambda>alias f. f\<lparr>obj_name := alias\<rparr>) (alias_items ?m) ?d (objects cls) = Inr o1"
    and o2: "override_st (\<lambda>u f. f\<lparr>obj_required := True\<rparr>)
                  (map (\<lambda>n. (n, ())) (required_items ?m)) ?d o1 = Inr o2"
    and o3: "override_st (\<lambda>c f. f\<lparr>obj_converter := c\<rparr>) (converter_items ?m) ?d o2 = Inr o3"
    and o4: "override_st (\<lambda>v f. f\<lparr>obj_validator := v\<rparr>) (validator_items ?m) ?d o3 = Inr o4"
    and c: "cls' = cls\<lparr>objects := o4\<rparr>"
    by (auto simp: process_meta_st_def Let_def split: sum.splits)
  from c show "bindings cls' = bindings cls" by simp
  have "obj_name (o4 r) = obj_name (o3 r)"
    by (rule override_st_keeps [OF _ o4]) simp
  also have "\<dots> = obj_name (o2 r)"
    by (rule override_st_keeps [OF _ o3]) simp
  also have "\<dots> = obj_name (o1 r)"
    by (rule override_st_keeps [OF _ o2]) simp
  finally have "obj_name (objects cls' r) = obj_name (o1 r)" using c by simp
  with override_st_names [OF o1, of r]
  show "obj_name (objects cls' r) = obj_name (objects cls r) \<or>
         (\<exists>k'. map_of (bindings cls) k' = Some (Ref r) \<and>
               (k', obj_name (objects cls' r)) \<in> set (alias_items (meta_st cls)))"
    by simp
qed

lemma define_class_st_unfold:
  "\<not> st_no_parse_hints body \<Longrightarrow>
     define_class_st types body =
       (case parse_type_hints_st types (ModelType_new_st body) of
          (w, Inl e) \<Rightarrow> (w, Inl e)
        | (w, Inr cls') \<Rightarrow> (w, process_meta_st cls'))"
  by (simp add: define_class_st_def ModelType_init_st_def ModelType_new_st_simps)

text \<open>
  C6, as amended: after the definition of a class, the name of a field of the schema
  is an alias that \<^verbatim>\<open>Meta\<close> gives to an attribute bound to the \<^verbatim>\<open>Field\<close> object, as it is
  given; otherwise the name is set (not \<^verbatim>\<open>None\<close>): for an explicit \<^verbatim>\<open>Field\<close> object it
  is the name that the object had before, or, if it had none, the first attribute of
  the body bound to the object, and for a field derived from an annotation it is the
  attribute name.
\<close>

theorem field_names_after_definition:
  assumes "\<not> st_no_parse_hints body"
    and "\<forall>r \<in> set (refs_of (bindings body)). r < next_ref body"
    and "define_class_st types body = (w, Inr cls)"
    and "map_of (bindings cls) k = Some (Ref r)"
  shows "(\<exists>k'. map_of (bindings cls) k' = Some (Ref r) \<and>
               (k', obj_name (objects cls r)) \<in> set (alias_items (meta_st body))) \<or>
         (obj_name (objects cls r) \<noteq> VNone \<and>
          obj_name (objects cls r) =
            (if r < next_ref body
             then (if obj_name (objects body r) \<noteq> VNone then obj_name (objects body r)
                   else (case first_key (bindings body) r of
                           Some k' \<Rightarrow> VStr k'
                         | None \<Rightarrow> VNone))
             else VStr k))"
proof -
  let ?c1 = "ModelType_new_st body"
  let ?n0 = "next_ref body" and ?old = "refs_of (bindings body)"
  have c1: "bindings ?c1 = bindings body" "next_ref ?c1 = next_ref body"
    "st_Meta ?c1 = st_Meta body"
    "objects ?c1 = fst (collect_objects (bindings body) (objects body))"
    using assms(1) by (simp_all add: ModelType_new_st_simps)
  from assms(1,3) obtain c2 where
    c2: "parse_type_hints_st types ?c1 = (w, Inr c2)" "process_meta_st c2 = Inr cls"
    by (auto simp: define_class_st_unfold split: prod.splits sum.splits)
  have inv1: "parse_inv ?n0 ?old (objects ?c1) ?c1"
    unfolding parse_inv_def c1(1,2)
  proof (intro conjI allI impI)
    fix m q assume "map_of (bindings body) m = Some (Ref q)"
    from map_of_refs [OF this] assms(2) have q: "q \<in> set ?old" "q < ?n0" by auto
    then show "q < ?n0" "q \<in> set ?old" by simp_all
    show "obj_name (objects ?c1 q) = VStr m" if "?n0 \<le> q" using that q(2) by simp
  qed simp_all
  have inv2: "parse_inv ?n0 ?old (objects ?c1) c2" and m2: "st_Meta c2 = st_Meta body"
  proof -
    show "parse_inv ?n0 ?old (objects ?c1) c2"
    proof (cases "st_annotations ?c1")
      case None
      with c2(1) inv1 show ?thesis by (simp add: parse_type_hints_st_def)
    next
      case (Some anns)
      with c2(1) have "parse_hints_loop_st anns types ?c1 = Inr c2"
        by (simp add: parse_type_hints_st_def)
      from parse_st_inv [OF this inv1] show ?thesis .
    qed
    show "st_Meta c2 = st_Meta body"
    proof (cases "st_annotations ?c1")
      case None
      with c2(1) c1(3) show ?thesis by (simp add: parse_type_hints_st_def)
    next
      case (Some anns)
      with c2(1) have "parse_hints_loop_st anns types ?c1 = Inr c2"
        by (simp add: parse_type_hints_st_def)
      from parse_st_frame [OF this] c1(3) show ?thesis by simp
    qed
  qed
  have meta: "meta_st c2 = meta_st body" using m2 by (simp add: meta_st_def)
  have b: "bindings cls = bindings c2" by (rule process_meta_st_names(1) [OF c2(2)])
  from assms(4) b have bound: "map_of (bindings c2) k = Some (Ref r)" by simp
  from inv2 bound have
    old: "r < ?n0 \<Longrightarrow> r \<in> set ?old \<and> objects c2 r = objects ?c1 r"
    and new: "?n0 \<le> r \<Longrightarrow> obj_name (objects c2 r) = VStr k"
    by (auto simp: parse_inv_def)
  from process_meta_st_names(2) [OF c2(2), of r] show ?thesis
  proof
    assume "\<exists>k'. map_of (bindings c2) k' = Some (Ref r) \<and>
               (k', obj_name (objects cls r)) \<in> set (alias_items (meta_st c2))"
    then show ?thesis by (simp add: b meta)
  next
    assume same: "obj_name (objects cls r) = obj_name (objects c2 r)"
    show ?thesis
    proof (cases "r < ?n0")
      case False
      with new same show ?thesis by simp
    next
      case True
      with old have r: "r \<in> set ?old" and o: "objects c2 r = objects ?c1 r" by simp_all
      from r obtain k' where k': "first_key (bindings body) r = Some k'"
        using first_key_refs [of "bindings body" r] by auto
      from same o True k' show ?thesis
        by (simp add: c1(4) collect_objects_store)
    qed
  qed
qed

lemma shared_defined:
  "define_class_st [(''c'', Prim PInt)] shared_body =
     ([MixedStyles],
      Inr \<lparr>bindings = [(''a'', Ref 0), (''b'', Ref 0), (''c'', Ref 1)],
           objects = (\<lambda>r. new_fobj StringField)
             (0 := (new_fobj StringField)\<lparr>obj_name := VStr ''a''\<rparr>,
              1 := (new_fobj IntField)\<lparr>obj_name := VStr ''c'', obj_default := Some (Val (VInt 1))\<rparr>),
           next_ref = 2,
           st_annotations = Some [(''c'', Prim PInt)],
           st_Meta = None,
           st_no_parse_hints = False,
           st_field_order = [''a'', ''b'', ''c'']\<rparr>)"
  by (simp add: define_class_st_def ModelType_init_st_def ModelType_new_st_def
      parse_type_hints_st_def parse_hints_loop_st.simps process_meta_st_def meta_st_def
      shared_body_def new_fobj_def hint_to_field_prims)

theorem field_names_after_definition_witness:
  "\<exists>w cls. define_class_st [(''c'', Prim PInt)] shared_body = (w, Inr cls) \<and>
     map_of (bindings cls) ''b'' = Some (Ref 0) \<and> obj_name (objects cls 0) = VStr ''a'' \<and>
     map_of (bindings cls) ''c'' = Some (Ref 1) \<and> obj_name (objects cls 1) = VStr ''c''"
proof -
  let ?cls = "\<lparr>bindings = [(''a'', Ref 0), (''b'', Ref 0), (''c'', Ref 1)],
           objects = (\<lambda>r. new_fobj StringField)
             (0 := (new_fobj StringField)\<lparr>obj_name := VStr ''a''\<rparr>,
              1 := (new_fobj IntField)\<lparr>obj_name := VStr ''c'', obj_default := Some (Val (VInt 1))\<rparr>),
           next_ref = 2,
           st_annotations = Some [(''c'', Prim PInt)],
           st_Meta = None,
           st_no_parse_hints = False,
           st_field_order = [''a'', ''b'', ''c'']\<rparr>"
  have h1: "\<not> st_no_parse_hints shared_body" by (simp add: shared_body_def)
  have h2: "\<forall>r \<in> set (refs_of (bindings shared_body)). r < next_ref shared_body"
    by (simp add: shared_body_def)
  have bb: "map_of (bindings ?cls) ''b'' = Some (Ref 0)"
    and bc: "map_of (bindings ?cls) ''c'' = Some (Ref 1)"
    by simp_all
  have no_alias: "alias_items (meta_st shared_body) = []"
    by (simp add: meta_st_def shared_body_def)
  from field_names_after_definition [OF h1 h2 shared_defined bb]
  have "obj_name (objects ?cls 0) = VStr ''a''"
    unfolding no_alias by (simp add: shared_body_def new_fobj_def)
  moreover from field_names_after_definition [OF h1 h2 shared_defined bc]
  have "obj_name (objects ?cls 1) = VStr ''c''"
    unfolding no_alias by (simp add: shared_body_def)
  ultimately show ?thesis using shared_defined bb bc by blast
qed

text \<open>
  An alias is assigned as it is given: after the definition of the class with the
  aliases \<^verbatim>\<open>{'title': None, 'content': ''}\<close>, the field \<^verbatim>\<open>title\<close> has the name \<^verbatim>\<open>None\<close> and
  the field \<^verbatim>\<open>content\<close> the empty string as name.
\<close>

theorem unset_alias_counterexample:
  "define_class_st [] unnamed_body =
     ([],
      Inr \<lparr>bindings = [(''title'', Ref 0), (''content'', Ref 1)],
           objects = (\<lambda>r. new_fobj StringField)
             (0 := (new_fobj StringField)\<lparr>obj_name := VNone\<rparr>,
              1 := (new_fobj StringField)\<lparr>obj_name := VStr []\<rparr>),
           next_ref = 2,
           st_annotations = None,
           st_Meta = Some \<lparr>alias_items = [(''title'', VNone), (''content'', VStr [])],
                           required_items = [], converter_items = [],
                           validator_items = []\<rparr>,
           st_no_parse_hints = False,
           st_field_order = [''title'', ''content'']\<rparr>)"
  by (simp add: define_class_st_def ModelType_init_st_def ModelType_new_st_def
      parse_type_hints_st_def process_meta_st_def meta_st_def
      unnamed_body_def new_fobj_def)

subsection \<open>Cleaning and materialization\<close>

text \<open>
  C1, as amended: \<^verbatim>\<open>clean\<close> calls the conversion of the root field exactly when
  \<^verbatim>\<open>bypass_conversion\<close> is false. It calls the validation exactly when
  \<^verbatim>\<open>bypass_validation\<close> is false and the conversion, if it was called, has returned a
  mapping: an error raised by the conversion ends \<^verbatim>\<open>clean\<close> with that error and
  without validation. The validation is applied to the converted mapping (to the
  mapping given if the conversion is bypassed), its error is the error of \<^verbatim>\<open>clean\<close>,
  and otherwise that mapping is returned. With both switches set no call is made and
  the mapping given is returned as it is.
\<close>

theorem clean_switches:
  "((\<exists>x. Convert x \<in> set (fst (clean root d bypass_conversion bypass_validation)))
      \<longleftrightarrow> \<not> bypass_conversion) \<and>
   ((\<exists>x. Validate x \<in> set (fst (clean root d bypass_conversion bypass_validation)))
      \<longleftrightarrow> (\<not> bypass_validation \<and> (bypass_conversion \<or> (\<exists>d'. convert root d = Inr d')))) \<and>
   clean root d True True = ([], Inr d) \<and>
   clean root d True False =
     ([Validate d], case validate root d of Some e \<Rightarrow> Inl e | None \<Rightarrow> Inr d) \<and>
   clean root d False True = ([Convert d], convert root d) \<and>
   clean root d False False =
     (case convert root d of
        Inl e \<Rightarrow> ([Convert d], Inl e)
      | Inr d' \<Rightarrow>
          ([Convert d, Validate d'],
           case validate root d' of Some e \<Rightarrow> Inl e | None \<Rightarrow> Inr d'))"
  by (auto simp: clean_def split: sum.splits option.splits)

theorem clean_switches_witness:
  "clean passing_root [(''title'', VInt 1)] False False =
     ([Convert [(''title'', VInt 1)], Validate [(''title'', VStr ''1'')]],
      Inr [(''title'', VStr ''1'')]) \<and>
   clean passing_root [(''title'', VInt 1)] True True = ([], Inr [(''title'', VInt 1)])"
  using clean_switches [of passing_root "[(''title'', VInt 1)]"]
  by (simp add: passing_root_def)

text \<open>
  With \<^verbatim>\<open>bypass_validation\<close> false the validation is not always applied: when the
  conversion raises, \<^verbatim>\<open>clean\<close> makes the one call to the conversion and ends with its
  error.
\<close>

theorem conversion_raises_counterexample:
  "clean failing_root [(''title'', VInt 1)] False False =
     ([Convert [(''title'', VInt 1)]], Inl (ConversionError ''title''))"
  by (simp add: clean_def failing_root_def)

text \<open>
  C7: \<^verbatim>\<open>from_data_unchanged\<close> returns an instance for every mapping, makes no call to
  the conversion or the validation of the root field, and \<^verbatim>\<open>to_dict\<close> of the instance
  is the mapping given.
\<close>

theorem from_data_unchanged_keeps_data:
  "\<exists>obj. from_data_unchanged root d = ([], Inr obj) \<and> to_dict obj = d"
  by (simp add: from_data_unchanged_def BaseModel_init_def clean_def to_dict_def)

subsection \<open>Iteration over an instance\<close>

lemma yield_attrs_eq:
  "yield_attrs g keys =
     (map (\<lambda>k. projr (g k)) (takeWhile (\<lambda>k. \<not> isl (g k)) keys),
      map_option (\<lambda>k. projl (g k)) (find (\<lambda>k. isl (g k)) keys))"
proof (induction keys)
  case Nil
  then show ?case by simp
next
  case (Cons k keys)
  then show ?case by (cases "g k") simp_all
qed

lemma yield_attrs_all:
  "\<forall>k \<in> set keys. \<exists>v. g k = Inr v \<Longrightarrow> yield_attrs g keys = (map (\<lambda>k. projr (g k)) keys, None)"
  by (induction keys) auto

text \<open>
  C4, as amended: iterating over an instance yields one value per key of the mapping
  \<^verbatim>\<open>self._data\<close>, in the order of the keys of that mapping, each obtained by attribute
  lookup under the key; the iteration ends at the first lookup that raises. When
  every lookup returns, the values of all keys are yielded.
\<close>

theorem iter_model_data_order:
  "iter_model getattr self =
     (map (\<lambda>k. projr (getattr self k))
        (takeWhile (\<lambda>k. \<not> isl (getattr self k)) (map fst (data self))),
      map_option (\<lambda>k. projl (getattr self k))
        (find (\<lambda>k. isl (getattr self k)) (map fst (data self)))) \<and>
   ((\<forall>k \<in> set (map fst (data self)). \<exists>v. getattr self k = Inr v) \<longrightarrow>
      iter_model getattr self = (map (\<lambda>k. projr (getattr self k)) (map fst (data self)), None))"
  unfolding iter_model_def using yield_attrs_all [of "map fst (data self)" "getattr self"]
  by (simp add: yield_attrs_eq)

theorem iter_model_data_order_witness:
  "iter_model stored_getattr unordered_post = ([VStr ''c'', VStr ''t''], None)"
proof -
  have "\<forall>k \<in> set (map fst (data unordered_post)). \<exists>v. stored_getattr unordered_post k = Inr v"
    by (simp add: unordered_post_def stored_getattr_def)
  with iter_model_data_order [of stored_getattr unordered_post]
  have "iter_model stored_getattr unordered_post =
          (map (\<lambda>k. projr (stored_getattr unordered_post k)) (map fst (data unordered_post)), None)"
    by blast
  then show ?thesis by (simp add: unordered_post_def stored_getattr_def)
qed

text \<open>
  The order is that of the mapping, not of the schema: for the schema order
  \<^verbatim>\<open>title, content\<close> and the mapping \<^verbatim>\<open>{'content': 'c', 'title': 't'}\<close>, the iteration
  yields \<^verbatim>\<open>'c'\<close> before \<^verbatim>\<open>'t'\<close>.
\<close>

theorem iter_schema_order_counterexample:
  "iter_model stored_getattr unordered_post \<noteq>
     iter_schema_order stored_getattr [''title'', ''content''] unordered_post \<and>
   iter_model stored_getattr unordered_post = ([VStr ''c'', VStr ''t''], None) \<and>
   iter_schema_order stored_getattr [''title'', ''content''] unordered_post =
     ([VStr ''t'', VStr ''c''], None)"
  by (simp add: iter_model_def iter_schema_order_def unordered_post_def stored_getattr_def)

subsection \<open>The persistence guard\<close>

lemma set_attribute_provenance: "provenance (set_attribute key v self) = provenance self"
  by (simp add: set_attribute_def)

lemma mutations_provenance:
  "provenance (fold (\<lambda>(key, v). set_attribute key v) ms self) = provenance self"
  by (induction ms arbitrary: self) (auto simp: set_attribute_provenance)

text \<open>
  C8: the factory gives an instance for every mapping, and every attempt to save that
  instance fails with \<^verbatim>\<open>RuntimeError\<close>, whatever attributes have been assigned
  since.
\<close>

theorem materialized_never_saved:
  "\<exists>obj. materialize root d = Inr obj \<and> data obj = d \<and>
     save (fold (\<lambda>(key, v). set_attribute key v) ms obj) = Inl RuntimeError"
  by (simp add: materialize_def from_data_unchanged_def BaseModel_init_def clean_def save_def
      mutations_provenance)

subsection \<open>Index reconciliation\<close>

lemma ensure_index_names: "x \<in> set (ensure_index existing spec) \<Longrightarrow> op_name x = fst spec"
  by (cases spec) (auto split: option.splits if_splits)

lemma drop_undeclared_names:
  "x \<in> set (drop_undeclared declared existing) \<Longrightarrow>
     op_name x \<notin> set (map fst declared) \<and> op_name x \<in> set (map fst existing) \<and>
     x = DropIndex (op_name x)"
proof -
  assume "x \<in> set (drop_undeclared declared existing)"
  then obtain n where "x = DropIndex n" "n \<notin> set (map fst declared)" "n \<in> set (map fst existing)"
    unfolding drop_undeclared_def by auto
  then show ?thesis by simp
qed

lemma reconcile_ops_of:
  assumes "distinct (map fst declared)" and "(n, key, opts) \<in> set declared"
  shows "filter (\<lambda>x. op_name x = n) (reconcile declared existing) =
           ensure_index existing (n, key, opts)"
proof -
  have declared_n: "n \<in> set (map fst declared)"
    using assms(2) image_eqI [of n fst "(n, key, opts)" "set declared"] by simp
  have 1: "filter (\<lambda>x. op_name x = n) (drop_undeclared declared existing) = []"
    using declared_n drop_undeclared_names [of _ declared existing]
    by (auto simp: filter_empty_conv)
  have 2: "filter (\<lambda>x. op_name x = n) (concat (map (ensure_index existing) ds)) =
             (if (n, key, opts) \<in> set ds then ensure_index existing (n, key, opts) else [])"
    if "distinct (map fst ds)" "\<forall>s \<in> set ds. fst s = n \<longrightarrow> s = (n, key, opts)" for ds
    using that
  proof (induction ds)
    case Nil
    then show ?case by simp
  next
    case (Cons s ds)
    from Cons.prems have d: "distinct (map fst ds)" "fst s \<notin> fst ` set ds"
      and u: "\<forall>s \<in> set ds. fst s = n \<longrightarrow> s = (n, key, opts)"
      by simp_all
    note IH = Cons.IH [OF d(1) u]
    show ?case
    proof (cases "fst s = n")
      case True
      with Cons.prems(2) have s: "s = (n, key, opts)" by simp
      from d(2) True have "n \<notin> fst ` set ds" by simp
      then have notin: "(n, key, opts) \<notin> set ds"
        using image_eqI [of n fst "(n, key, opts)" "set ds"] by auto
      have "filter (\<lambda>x. op_name x = n) (ensure_index existing (n, key, opts)) =
              ensure_index existing (n, key, opts)"
        using ensure_index_names [of _ existing "(n, key, opts)"] by (auto simp: filter_id_conv)
      with IH notin show ?thesis unfolding s by simp
    next
      case False
      then have "filter (\<lambda>x. op_name x = n) (ensure_index existing s) = []"
        using ensure_index_names [of _ existing s] by (auto simp: filter_empty_conv)
      moreover from False have "s \<noteq> (n, key, opts)" by auto
      ultimately show ?thesis using IH by simp
    qed
  qed
  have "\<forall>s \<in> set declared. fst s = n \<longrightarrow> s = (n, key, opts)"
  proof (intro ballI impI)
    fix s assume s: "s \<in> set declared" "fst s = n"
    obtain m v where sv: "s = (m, v)" by (cases s)
    with s have "(n, v) \<in> set declared" by simp
    from eq_key_imp_eq_value [OF assms(1) this assms(2)] have "v = (key, opts)" .
    with sv s(2) show "s = (n, key, opts)" by simp
  qed
  from 2 [OF assms(1) this] 1 assms(2) show ?thesis by (simp add: reconcile_def)
qed

lemma reconcile_undeclared:
  assumes "n \<in> set (map fst existing)" and "n \<notin> set (map fst declared)"
  shows "DropIndex n \<in> set (reconcile declared existing)"
  using assms by (simp add: reconcile_def drop_undeclared_def)

lemma in_filter_name:
  "x \<in> set ops \<Longrightarrow> op_name x = n \<Longrightarrow> x \<in> set (filter (\<lambda>x. op_name x = n) ops)"
  by simp

text \<open>
  C9: the reconciler drops every existing index whose name is not declared. For a
  declared index (names are declared once), the calls about it are: one creation with
  its key and options if no index of that name exists; a drop followed by the creation
  if one exists with another TTL; none if one exists with the same TTL, in
  particular if it is identical.
\<close>

theorem reconcile_operations:
  assumes "distinct (map fst declared)"
  shows "(\<forall>n \<in> set (map fst existing). n \<notin> set (map fst declared) \<longrightarrow>
            DropIndex n \<in> set (reconcile declared existing)) \<and>
         (\<forall>(n, key, opts) \<in> set declared.
            filter (\<lambda>x. op_name x = n) (reconcile declared existing) =
              (case map_of existing n of
                 None \<Rightarrow> [CreateIndex n key opts]
               | Some (key', opts') \<Rightarrow>
                   if expire_after_seconds opts' \<noteq> expire_after_seconds opts
                   then [DropIndex n, CreateIndex n key opts]
                   else []))"
proof (intro conjI ballI impI)
  fix n assume "n \<in> set (map fst existing)" "n \<notin> set (map fst declared)"
  then show "DropIndex n \<in> set (reconcile declared existing)" by (rule reconcile_undeclared)
next
  fix spec assume spec: "spec \<in> set declared"
  obtain n key opts where s: "spec = (n, key, opts)" by (cases spec)
  from reconcile_ops_of [OF assms spec [unfolded s], of existing]
  show "case spec of (n, key, opts) \<Rightarrow>
          filter (\<lambda>x. op_name x = n) (reconcile declared existing) =
              (case map_of existing n of
                 None \<Rightarrow> [CreateIndex n key opts]
               | Some (key', opts') \<Rightarrow>
                   if expire_after_seconds opts' \<noteq> expire_after_seconds opts
                   then [DropIndex n, CreateIndex n key opts]
                   else [])"
    unfolding s by simp
qed

lemma reconcile_example:
  "reconcile declared_indexes existing_indexes =
     [DropIndex ''a_1'',
      CreateIndex ''b_1'' [(''b'', 1)] plain_options,
      DropIndex ''expires_at_1'',
      CreateIndex ''expires_at_1'' [(''expires_at'', 1)]
        (plain_options\<lparr>expire_after_seconds := Some 3600\<rparr>)]"
  by (simp add: reconcile_def drop_undeclared_def declared_indexes_def existing_indexes_def
      plain_options_def)

theorem reconcile_operations_witness:
  "DropIndex ''a_1'' \<in> set (reconcile declared_indexes existing_indexes) \<and>
   filter (\<lambda>x. op_name x = ''b_1'') (reconcile declared_indexes existing_indexes) =
     [CreateIndex ''b_1'' [(''b'', 1)] plain_options] \<and>
   filter (\<lambda>x. op_name x = ''expires_at_1'') (reconcile declared_indexes existing_indexes) =
     [DropIndex ''expires_at_1'',
      CreateIndex ''expires_at_1'' [(''expires_at'', 1)]
        (plain_options\<lparr>expire_after_seconds := Some 3600\<rparr>)] \<and>
   filter (\<lambda>x. op_name x = ''c_1'') (reconcile declared_indexes existing_indexes) = []"
proof -
  have d: "distinct (map fst declared_indexes)"
    by (simp add: declared_indexes_def)
  note r = reconcile_operations [OF d, of existing_indexes]
  from r have 1: "DropIndex ''a_1'' \<in> set (reconcile declared_indexes existing_indexes)"
    by (simp add: declared_indexes_def existing_indexes_def)
  from r have 2: "\<forall>(n, key, opts) \<in> set declared_indexes.
            filter (\<lambda>x. op_name x = n) (reconcile declared_indexes existing_indexes) =
              (case map_of existing_indexes n of
                 None \<Rightarrow> [CreateIndex n key opts]
               | Some (key', opts') \<Rightarrow>
                   if expire_after_seconds opts' \<noteq> expire_after_seconds opts
                   then [DropIndex n, CreateIndex n key opts]
                   else [])"
    by blast
  have m: "map_of existing_indexes ''b_1'' = None"
    "map_of existing_indexes ''expires_at_1'' =
       Some ([(''expires_at'', 1)], plain_options\<lparr>expire_after_seconds := Some 2400\<rparr>)"
    "map_of existing_indexes ''c_1'' = Some ([(''c'', 1)], plain_options)"
    by (simp_all add: existing_indexes_def)
  have mem: "(''b_1'', [(''b'', 1)], plain_options) \<in> set declared_indexes"
    "(''expires_at_1'', [(''expires_at'', 1)], plain_options\<lparr>expire_after_seconds := Some 3600\<rparr>)
       \<in> set declared_indexes"
    "(''c_1'', [(''c'', 1)], plain_options) \<in> set declared_indexes"
    by (simp_all add: declared_indexes_def)
  from bspec [OF 2 mem(1)] m(1)
  have 3: "filter (\<lambda>x. op_name x = ''b_1'') (reconcile declared_indexes existing_indexes) =
     [CreateIndex ''b_1'' [(''b'', 1)] plain_options]"
    by simp
  from bspec [OF 2 mem(2)] m(2)
  have 4: "filter (\<lambda>x. op_name x = ''expires_at_1'') (reconcile declared_indexes existing_indexes) =
     [DropIndex ''expires_at_1'',
      CreateIndex ''expires_at_1'' [(''expires_at'', 1)]
        (plain_options\<lparr>expire_after_seconds := Some 3600\<rparr>)]"
    by simp
  from bspec [OF 2 mem(3)] m(3)
  have 5: "filter (\<lambda>x. op_name x = ''c_1'') (reconcile declared_indexes existing_indexes) = []"
    by simp
  from 1 3 4 5 show ?thesis by blast
qed

end
